theory Spec2Isabelle
  imports Main
begin

section \<open>Strings and the two regular expressions of the shim\<close>

text \<open>
  JavaScript strings are modelled as \<open>string\<close>, each \<open>char\<close> read as one code unit below 256.
  \<open>js_space\<close> is the class \<open>\s\<close> of a JavaScript regular expression on these code units:
  tab, line feed, vertical tab, form feed, carriage return, space and no-break space.
\<close>

definition js_space :: "char \<Rightarrow> bool" where
  "js_space ch = (ch \<in> set [CHR 0x09, CHR 0x0A, CHR 0x0B, CHR 0x0C, CHR 0x0D, CHR 0x20, CHR 0xA0])"

text \<open>\<open>s.replace(/^\s+|\s+$/g, '')\<close>: the leading and the trailing run of \<open>\s\<close> are deleted.\<close>

definition trim :: "string \<Rightarrow> string" where
  "trim s = rev (dropWhile js_space (rev (dropWhile js_space s)))"

text \<open>
  The expression \<open>new RegExp('(\\s|^)' + className + '(\\s|$)')\<close> is modelled for class names
  that hold no regular-expression metacharacter, so that the class name matches itself and
  nothing else (the shim itself passes \<open>'placeholder'\<close> and \<open>'displayNone'\<close> only).

  \<open>after_name c s\<close> matches \<open>className(\s|$)\<close> at the head of \<open>s\<close> and returns what follows
  the match: the class name, then one \<open>\s\<close>, or else the end of the input.
\<close>

definition after_name :: "string \<Rightarrow> string \<Rightarrow> string option" where
  "after_name c s =
     (if take (length c) s = c then
        (case drop (length c) s of
           [] \<Rightarrow> Some []
         | x # r \<Rightarrow> if js_space x then Some r else None)
      else None)"

text \<open>
  \<open>find_class c at_start s\<close> is the leftmost match of the whole expression in \<open>s\<close>, as the pair
  of the text before the match and the text after it. At each position the alternative
  \<open>\s\<close> of the first group is tried before \<open>^\<close>, and \<open>^\<close> matches at the start of the input
  only (\<open>at_start\<close>).
\<close>

fun find_class :: "string \<Rightarrow> bool \<Rightarrow> string \<Rightarrow> (string \<times> string) option" where
  "find_class c at_start [] =
     (if at_start then map_option (Pair []) (after_name c []) else None)"
| "find_class c at_start (x # xs) =
     (case (if js_space x then after_name c xs else None) of
        Some r \<Rightarrow> Some ([], r)
      | None \<Rightarrow>
          (case (if at_start then after_name c (x # xs) else None) of
             Some r \<Rightarrow> Some ([], r)
           | None \<Rightarrow> map_option (\<lambda>(p, r). (x # p, r)) (find_class c False xs)))"

text \<open>\<open>s.match(regex)\<close> is truthy when there is a match.\<close>

definition regex_match :: "string \<Rightarrow> string \<Rightarrow> bool" where
  "regex_match c s = (find_class c True s \<noteq> None)"

text \<open>\<open>s.replace(regex, ' ')\<close> without the \<open>g\<close> flag: the leftmost match becomes one space.\<close>

definition regex_replace :: "string \<Rightarrow> string \<Rightarrow> string" where
  "regex_replace c s =
     (case find_class c True s of None \<Rightarrow> s | Some (p, r) \<Rightarrow> p @ '' '' @ r)"

text \<open>\<open>s.replace(className, '')\<close> with a string pattern: the first occurrence is deleted.\<close>

fun replace_first :: "string \<Rightarrow> string \<Rightarrow> string" where
  "replace_first c [] = []"
| "replace_first c (x # xs) =
     (if take (length c) (x # xs) = c then drop (length c) (x # xs)
      else x # replace_first c xs)"

subsection \<open>The token list behind \<open>element.classList\<close>\<close>

text \<open>
  Where the browser has \<open>element.classList\<close>, its methods follow the DOM standard: the class
  attribute is split at ASCII whitespace into an ordered set of tokens, and after \<open>add\<close> or
  \<open>remove\<close> the attribute is the tokens joined by single spaces. The shim calls them with
  \<open>'placeholder'\<close> and \<open>'displayNone'\<close>, for which they do not throw.
\<close>

definition ascii_space :: "char \<Rightarrow> bool" where
  "ascii_space ch = (ch \<in> set [CHR 0x09, CHR 0x0A, CHR 0x0C, CHR 0x0D, CHR 0x20])"

fun split_tokens :: "string \<Rightarrow> string \<Rightarrow> string list" where
  "split_tokens cur [] = (if cur = [] then [] else [cur])"
| "split_tokens cur (x # xs) =
     (if ascii_space x then (if cur = [] then split_tokens [] xs else cur # split_tokens [] xs)
      else split_tokens (cur @ [x]) xs)"

fun ordered_set :: "string list \<Rightarrow> string list" where
  "ordered_set [] = []"
| "ordered_set (t # ts) = t # ordered_set (filter (\<lambda>u. u \<noteq> t) ts)"

definition token_set :: "string \<Rightarrow> string list" where
  "token_set s = ordered_set (split_tokens [] s)"

fun serialize :: "string list \<Rightarrow> string" where
  "serialize [] = []"
| "serialize [t] = t"
| "serialize (t # ts) = t @ '' '' @ serialize ts"

text \<open>A class token: not empty and free of ASCII whitespace.\<close>

definition token :: "string \<Rightarrow> bool" where
  "token t = (t \<noteq> [] \<and> (\<forall>ch\<in>set t. \<not> ascii_space ch))"

section \<open>Input elements\<close>

text \<open>
  The closures that the shim stores in the event properties of an element. \<open>ReturnFalse\<close> is
  \<open>function () { return false; }\<close>; the next three call \<open>onClick(this)\<close>, \<open>onFocus(this)\<close> and
  \<open>onBlur(this)\<close>; the password closures hold the references of the password element and of
  its decoy; \<open>ForeignHandler\<close> is a handler that some other script has set.
\<close>

datatype handler =
    ReturnFalse
  | CallOnClick
  | CallOnFocus
  | CallOnBlur
  | CallOnClickPassword nat nat
  | CallOnFocusPassword nat nat
  | CallOnBlurPassword nat nat
  | ForeignHandler nat

text \<open>
  An input element. \<open>placeholder\<close> is the string-valued property (\<open>''''\<close> while it is undefined
  or empty, both falsy), \<open>placeholderAttr\<close> what \<open>getAttribute('placeholder')\<close> returns (\<open>None\<close>
  for null), \<open>classList\<close> whether \<open>element.classList\<close> exists, \<open>el_form\<close> and \<open>parentNode\<close> are
  references (\<open>None\<close> for null).
\<close>

record element =
  el_type :: string
  el_name :: string
  el_value :: string
  className :: string
  placeholder :: string
  placeholderAttr :: "string option"
  classList :: bool
  el_form :: "nat option"
  parentNode :: "nat option"
  onclick :: "handler option"
  onfocus :: "handler option"
  onblur :: "handler option"
  onselectstart :: "handler option"
  onmousedown :: "handler option"

definition placeholderClassName :: string where
  "placeholderClassName = ''placeholder''"

definition hasClass :: "element \<Rightarrow> string \<Rightarrow> bool" where
  "hasClass element cn =
     (if classList element then cn \<in> set (token_set (className element))
      else regex_match cn (className element))"

definition addClass :: "element \<Rightarrow> string \<Rightarrow> element" where
  "addClass element cn =
     (if classList element then
        element\<lparr>className :=
          serialize (let ts = token_set (className element)
                     in if cn \<in> set ts then ts else ts @ [cn])\<rparr>
      else if \<not> hasClass element cn then
        element\<lparr>className := trim (className element @ '' '' @ cn)\<rparr>
      else element)"

definition removeClass :: "element \<Rightarrow> string \<Rightarrow> element" where
  "removeClass element cn =
     (let e1 =
        (if classList element then
           element\<lparr>className :=
             serialize (filter (\<lambda>t. t \<noteq> cn) (token_set (className element)))\<rparr>
         else if hasClass element cn then
           element\<lparr>className := regex_replace cn (className element)\<rparr>
         else element)
      in e1\<lparr>className := trim (replace_first cn (className e1))\<rparr>)"

definition enableTextSelection :: "element \<Rightarrow> element" where
  "enableTextSelection element = element\<lparr>onselectstart := None, onmousedown := None\<rparr>"

definition disableTextSelection :: "element \<Rightarrow> element" where
  "disableTextSelection element =
     element\<lparr>onselectstart := Some ReturnFalse, onmousedown := Some ReturnFalse\<rparr>"

definition activatePlaceholder :: "element \<Rightarrow> element" where
  "activatePlaceholder element =
     disableTextSelection
       (addClass (element\<lparr>el_value := placeholder element\<rparr>) placeholderClassName)"

definition deactivatePlaceholder :: "element \<Rightarrow> element" where
  "deactivatePlaceholder element =
     enableTextSelection (removeClass (element\<lparr>el_value := []\<rparr>) placeholderClassName)"

definition onFocus :: "element \<Rightarrow> element" where
  "onFocus element =
     (if hasClass element placeholderClassName then deactivatePlaceholder element else element)"

definition onBlur :: "element \<Rightarrow> element" where
  "onBlur element = (if el_value element = [] then activatePlaceholder element else element)"

definition beforeOnSubmit :: "element \<Rightarrow> element" where
  "beforeOnSubmit element =
     (if hasClass element placeholderClassName then element\<lparr>el_value := []\<rparr> else element)"

definition afterOnSubmit :: "element \<Rightarrow> element" where
  "afterOnSubmit element =
     (if hasClass element placeholderClassName then element\<lparr>el_value := placeholder element\<rparr>
      else element)"

section \<open>Forms, the document and the closures of the shim\<close>

text \<open>
  The functions handed to \<open>addBeforeOnSubmit\<close> and \<open>addAfterOnSubmit\<close>:
  \<open>function(){beforeOnSubmit(element)}\<close> and \<open>function(){afterOnSubmit(element)}\<close>, holding the
  reference of their element, and functions of other scripts, which the model identifies
  by a number and which leave a \<open>Call\<close> in the trace and the elements alone.
\<close>

datatype callback =
    CallBeforeOnSubmit nat
  | CallAfterOnSubmit nat
  | ForeignFunction nat

text \<open>
  The value of \<open>form.beforeOnSubmit\<close> and of \<open>form.afterOnSubmit\<close>: a function set there
  directly, or the closure built by \<open>addBeforeOnSubmit\<close>/\<open>addAfterOnSubmit\<close>, which holds
  \<open>existingFunctions\<close> (\<open>None\<close> when it was falsy) and \<open>newFunction\<close>.
\<close>

datatype fn =
    Plain callback
  | Composed "fn option" callback

text \<open>\<open>form.onsubmit\<close>: the wrapper installed by the shim for a form, or a foreign handler.\<close>

datatype submit_handler =
    CustomOnsubmit nat
  | ForeignOnsubmit nat

record form =
  form_id :: string
  form_name :: string
  onsubmit :: "submit_handler option"
  beforeOnSubmitProp :: "fn option"
  afterOnSubmitProp :: "fn option"
  onSubmitIsSet :: bool

text \<open>
  What the page observes: a line written by \<open>console.log\<close>, a submission of a form with the
  values of its named controls at that moment (each with the reference of its control, in
  document order), and a call of a foreign function.
\<close>

datatype event =
    ConsoleLog string
  | Submit nat "(nat \<times> string) list"
  | Call nat

text \<open>
  The page: the input elements and the forms by reference (a reference is an index),
  \<open>inputs\<close> the input elements of the document in document order, as
  \<open>document.getElementsByTagName('input')\<close> lists them, \<open>document.activeElement\<close>,
  whether \<open>'placeholder' in document.createElement('input')\<close> holds, whether new elements
  have a \<open>classList\<close>, and the trace of observed events.
\<close>

record world =
  elems :: "element list"
  forms :: "form list"
  inputs :: "nat list"
  activeElement :: "nat option"
  placeholderSupported :: bool
  classListSupported :: bool
  trace :: "event list"

datatype error = TypeError

text \<open>
  A call either returns a value or throws; the page as changed up to that point stays
  changed in both cases.
\<close>

datatype 'a outcome =
    Returned 'a world
  | Thrown error world

fun world_of :: "'a outcome \<Rightarrow> world" where
  "world_of (Returned x w) = w"
| "world_of (Thrown e w) = w"

definition upd_elem :: "nat \<Rightarrow> (element \<Rightarrow> element) \<Rightarrow> world \<Rightarrow> world" where
  "upd_elem r f w = w\<lparr>elems := (elems w)[r := f (elems w ! r)]\<rparr>"

definition upd_form :: "nat \<Rightarrow> (form \<Rightarrow> form) \<Rightarrow> world \<Rightarrow> world" where
  "upd_form r f w = w\<lparr>forms := (forms w)[r := f (forms w ! r)]\<rparr>"

definition log_event :: "event \<Rightarrow> world \<Rightarrow> world" where
  "log_event ev w = w\<lparr>trace := trace w @ [ev]\<rparr>"

definition placeholderIsSupported :: "world \<Rightarrow> bool" where
  "placeholderIsSupported w = placeholderSupported w"

text \<open>\<open>document.createElement('input')\<close>: a fresh, detached text input.\<close>

definition createElement :: "world \<Rightarrow> nat \<times> world" where
  "createElement w =
     (length (elems w),
      w\<lparr>elems := elems w @
         [\<lparr>el_type = ''text'', el_name = [], el_value = [], className = [],
           placeholder = [], placeholderAttr = None, classList = classListSupported w,
           el_form = None, parentNode = None, onclick = None, onfocus = None,
           onblur = None, onselectstart = None, onmousedown = None\<rparr>]\<rparr>)"

fun getElementsWithPlaceholders_loop :: "nat list \<Rightarrow> world \<Rightarrow> nat list \<times> world" where
  "getElementsWithPlaceholders_loop [] w = ([], w)"
| "getElementsWithPlaceholders_loop (r # rs) w =
     (let element = elems w ! r
      in if placeholder element \<noteq> [] \<or>
            (case placeholderAttr element of None \<Rightarrow> False | Some a \<Rightarrow> a \<noteq> [])
         then
           (let w1 = upd_elem r (\<lambda>e. e\<lparr>placeholder :=
                       (if placeholder e \<noteq> [] then placeholder e
                        else (case placeholderAttr e of None \<Rightarrow> [] | Some a \<Rightarrow> a))\<rparr>) w;
                (found, w2) = getElementsWithPlaceholders_loop rs w1
            in (r # found, w2))
         else getElementsWithPlaceholders_loop rs w)"

definition getElementsWithPlaceholders :: "world \<Rightarrow> nat list \<times> world" where
  "getElementsWithPlaceholders w = getElementsWithPlaceholders_loop (inputs w) w"

subsection \<open>Custom submit events\<close>

definition run_callback :: "callback \<Rightarrow> world \<Rightarrow> world" where
  "run_callback c w =
     (case c of
        CallBeforeOnSubmit r \<Rightarrow> upd_elem r beforeOnSubmit w
      | CallAfterOnSubmit r \<Rightarrow> upd_elem r afterOnSubmit w
      | ForeignFunction n \<Rightarrow> log_event (Call n) w)"

text \<open>
  Calling a value of \<open>form.beforeOnSubmit\<close>: the composed closure first calls
  \<open>existingFunctions\<close> when it is truthy, then \<open>newFunction\<close>.
\<close>

fun call_fn :: "fn \<Rightarrow> world \<Rightarrow> world" where
  "call_fn (Plain c) w = run_callback c w"
| "call_fn (Composed None c) w = run_callback c w"
| "call_fn (Composed (Some existingFunctions) c) w =
     run_callback c (call_fn existingFunctions w)"

definition addBeforeOnSubmit :: "nat \<Rightarrow> callback \<Rightarrow> world \<Rightarrow> world" where
  "addBeforeOnSubmit form newFunction w =
     upd_form form
       (\<lambda>f. f\<lparr>beforeOnSubmitProp := Some (Composed (beforeOnSubmitProp f) newFunction)\<rparr>) w"

definition addAfterOnSubmit :: "nat \<Rightarrow> callback \<Rightarrow> world \<Rightarrow> world" where
  "addAfterOnSubmit form newFunction w =
     upd_form form
       (\<lambda>f. f\<lparr>afterOnSubmitProp := Some (Composed (afterOnSubmitProp f) newFunction)\<rparr>) w"

definition extraInfo :: "form \<Rightarrow> string" where
  "extraInfo f =
     (if form_id f \<noteq> [] then '' with id `'' @ form_id f @ ''`''
      else if form_name f \<noteq> [] then '' with name `'' @ form_id f @ ''`''
      else [])"

definition warning :: "form \<Rightarrow> string" where
  "warning f =
     ''Onsubmit event was already set on form'' @ extraInfo f @ ''. Make sure that all'' @
     '' scripts used on this form use the custom `beforeOnSubmit` and `afterOnSubmit` events to ensure that'' @
     '' that all functionalities are operational.''"

definition setCustomBeforeAndAfterOnSubmitEvents :: "nat \<Rightarrow> world \<Rightarrow> world" where
  "setCustomBeforeAndAfterOnSubmitEvents form w =
     (let f = forms w ! form
      in if \<not> onSubmitIsSet f \<and> beforeOnSubmitProp f \<noteq> None \<and> afterOnSubmitProp f \<noteq> None
         then
           upd_form form (\<lambda>f. f\<lparr>onsubmit := Some (CustomOnsubmit form), onSubmitIsSet := True\<rparr>)
             (if onsubmit f \<noteq> None then log_event (ConsoleLog (warning f)) w else w)
         else w)"

text \<open>
  \<open>form.submit()\<close>: the form data are the values of the named input elements of the document
  that belong to the form. Disabled controls and unchecked boxes, which a browser leaves
  out, are not told apart.
\<close>

definition form_data :: "nat \<Rightarrow> world \<Rightarrow> (nat \<times> string) list" where
  "form_data form w =
     map (\<lambda>r. (r, el_value (elems w ! r)))
       (filter (\<lambda>r. el_form (elems w ! r) = Some form \<and> el_name (elems w ! r) \<noteq> []) (inputs w))"

definition submit :: "nat \<Rightarrow> world \<Rightarrow> world" where
  "submit form w = log_event (Submit form (form_data form w)) w"

text \<open>
  The wrapper stored in \<open>form.onsubmit\<close>. It reads \<open>form.beforeOnSubmit\<close> and
  \<open>form.afterOnSubmit\<close> when it runs; calling one that is not a function throws.
\<close>

definition onsubmit_wrapper :: "nat \<Rightarrow> world \<Rightarrow> bool outcome" where
  "onsubmit_wrapper form w =
     (case beforeOnSubmitProp (forms w ! form) of
        None \<Rightarrow> Thrown TypeError w
      | Some beforeFn \<Rightarrow>
          (let w1 = submit form (call_fn beforeFn w)
           in case afterOnSubmitProp (forms w1 ! form) of
                None \<Rightarrow> Thrown TypeError w1
              | Some afterFn \<Rightarrow> Returned False (call_fn afterFn w1)))"

subsection \<open>Wiring\<close>

text \<open>
  \<open>polyfill(element)\<close>. With \<open>element.form\<close> null, reading \<open>form.beforeOnSubmit\<close> in
  \<open>addBeforeOnSubmit\<close> throws, after the element has been activated and wired.
\<close>

definition polyfill :: "nat \<Rightarrow> world \<Rightarrow> unit outcome" where
  "polyfill r w =
     (let w1 = upd_elem r activatePlaceholder w;
          w2 = upd_elem r (\<lambda>e. e\<lparr>onclick := Some CallOnClick, onfocus := Some CallOnFocus,
                                  onblur := Some CallOnBlur\<rparr>) w1
      in case el_form (elems w2 ! r) of
           None \<Rightarrow> Thrown TypeError w2
         | Some form \<Rightarrow>
             Returned ()
               (setCustomBeforeAndAfterOnSubmitEvents form
                 (addAfterOnSubmit form (CallAfterOnSubmit r)
                   (addBeforeOnSubmit form (CallBeforeOnSubmit r) w2))))"

text \<open>
  \<open>parent.insertBefore(new, element.nextSibling)\<close>: an input element has no children, so the
  new node follows the element directly in document order.
\<close>

fun insert_after :: "nat \<Rightarrow> nat \<Rightarrow> nat list \<Rightarrow> nat list" where
  "insert_after r d [] = []"
| "insert_after r d (x # xs) = (if x = r then x # d # xs else x # insert_after r d xs)"

text \<open>
  \<open>polyfillPassword(element)\<close>. The inserted decoy gets the parent of the password element and
  with it the same form owner. A null \<open>element.parentNode\<close> throws.
\<close>

definition polyfillPassword :: "nat \<Rightarrow> world \<Rightarrow> unit outcome" where
  "polyfillPassword r w =
     (if el_type (elems w ! r) = ''password'' then
        (let (d, w1) = createElement w;
             w2 = upd_elem d (\<lambda>p. p\<lparr>el_type := ''text''\<rparr>) w1;
             w3 = upd_elem d (\<lambda>p. p\<lparr>className := className (elems w2 ! r)\<rparr>) w2;
             w4 = upd_elem d (\<lambda>p. p\<lparr>placeholder := placeholder (elems w3 ! r)\<rparr>) w3;
             w5 = upd_elem d activatePlaceholder w4;
             w6 = upd_elem d (\<lambda>p. p\<lparr>onclick := Some (CallOnClickPassword r d),
                                     onfocus := Some (CallOnFocusPassword r d)\<rparr>) w5;
             w7 = upd_elem r (\<lambda>e. e\<lparr>onblur := Some (CallOnBlurPassword r d)\<rparr>) w6;
             w8 = upd_elem r (\<lambda>e. addClass e ''displayNone'') w7
         in case parentNode (elems w8 ! r) of
              None \<Rightarrow> Thrown TypeError w8
            | Some parent \<Rightarrow>
                Returned ()
                  ((upd_elem d (\<lambda>p. p\<lparr>parentNode := Some parent,
                                       el_form := el_form (elems w8 ! r)\<rparr>) w8)
                   \<lparr>inputs := insert_after r d (inputs w8)\<rparr>))
      else Returned () w)"

text \<open>\<open>element.focus()\<close> makes the element the active element.\<close>

definition focus :: "nat \<Rightarrow> world \<Rightarrow> world" where
  "focus r w = w\<lparr>activeElement := Some r\<rparr>"

definition onClickPassword :: "nat \<Rightarrow> nat \<Rightarrow> world \<Rightarrow> world" where
  "onClickPassword r d w =
     focus r (upd_elem r (\<lambda>e. removeClass e ''displayNone'')
               (upd_elem d (\<lambda>p. addClass p ''displayNone'') w))"

definition onFocusPassword :: "nat \<Rightarrow> nat \<Rightarrow> world \<Rightarrow> world" where
  "onFocusPassword r d w = onClickPassword r d w"

definition onBlurPassword :: "nat \<Rightarrow> nat \<Rightarrow> world \<Rightarrow> world" where
  "onBlurPassword r d w =
     (if length (el_value (elems w ! r)) = 0 then
        upd_elem d (\<lambda>p. removeClass p ''displayNone'')
          (upd_elem r (\<lambda>e. addClass e ''displayNone'') w)
      else w)"

definition onClick :: "nat \<Rightarrow> world \<Rightarrow> world" where
  "onClick r w = (if Some r \<noteq> activeElement w then upd_elem r onFocus w else w)"

text \<open>Running a handler stored in an event property of the element \<open>this\<close>.\<close>

definition run_handler :: "handler \<Rightarrow> nat \<Rightarrow> world \<Rightarrow> world" where
  "run_handler h this w =
     (case h of
        ReturnFalse \<Rightarrow> w
      | CallOnClick \<Rightarrow> onClick this w
      | CallOnFocus \<Rightarrow> upd_elem this onFocus w
      | CallOnBlur \<Rightarrow> upd_elem this onBlur w
      | CallOnClickPassword r d \<Rightarrow> onClickPassword r d w
      | CallOnFocusPassword r d \<Rightarrow> onFocusPassword r d w
      | CallOnBlurPassword r d \<Rightarrow> onBlurPassword r d w
      | ForeignHandler n \<Rightarrow> log_event (Call n) w)"

text \<open>The user types into a field: the browser sets the value of the element.\<close>

definition user_types :: "nat \<Rightarrow> string \<Rightarrow> world \<Rightarrow> world" where
  "user_types r s w = upd_elem r (\<lambda>e. e\<lparr>el_value := s\<rparr>) w"

text \<open>The constructor loop of \<open>placeholderPolyfill\<close>; a throw ends it.\<close>

fun polyfill_loop :: "nat list \<Rightarrow> world \<Rightarrow> unit outcome" where
  "polyfill_loop [] w = Returned () w"
| "polyfill_loop (r # rs) w =
     (case (if el_type (elems w ! r) = ''password'' then polyfillPassword r w
            else polyfill r w) of
        Returned u w1 \<Rightarrow> polyfill_loop rs w1
      | Thrown e w1 \<Rightarrow> Thrown e w1)"

definition placeholderPolyfill :: "world \<Rightarrow> unit outcome" where
  "placeholderPolyfill w =
     (if \<not> placeholderIsSupported w then
        (let (inputElementsWithPlaceholders, w1) = getElementsWithPlaceholders w
         in polyfill_loop inputElementsWithPlaceholders w1)
      else Returned () w)"

section \<open>Reading closures and traces\<close>

text \<open>The functions that a value of \<open>form.beforeOnSubmit\<close> has collected, oldest first.\<close>

fun registered :: "fn \<Rightarrow> callback list" where
  "registered (Plain c) = [c]"
| "registered (Composed None c) = [c]"
| "registered (Composed (Some existingFunctions) c) = registered existingFunctions @ [c]"

definition registered_opt :: "fn option \<Rightarrow> callback list" where
  "registered_opt p = (case p of None \<Rightarrow> [] | Some g \<Rightarrow> registered g)"

definition run_all :: "callback list \<Rightarrow> world \<Rightarrow> world" where
  "run_all cs w = foldl (\<lambda>v c. run_callback c v) w cs"

text \<open>Calling the property when it holds a function, as \<open>if (f) { f(); }\<close> does.\<close>

definition call_opt :: "fn option \<Rightarrow> world \<Rightarrow> world" where
  "call_opt p w = (case p of None \<Rightarrow> w | Some g \<Rightarrow> call_fn g w)"

text \<open>What a registered function does to the element \<open>r\<close>.\<close>

definition touch :: "nat \<Rightarrow> callback \<Rightarrow> element \<Rightarrow> element" where
  "touch r c e =
     (case c of
        CallBeforeOnSubmit i \<Rightarrow> if i = r then beforeOnSubmit e else e
      | CallAfterOnSubmit i \<Rightarrow> if i = r then afterOnSubmit e else e
      | ForeignFunction n \<Rightarrow> e)"

text \<open>The trace that a list of registered functions leaves: the calls of foreign functions.\<close>

fun calls :: "callback list \<Rightarrow> event list" where
  "calls [] = []"
| "calls (ForeignFunction n # cs) = Call n # calls cs"
| "calls (c # cs) = calls cs"

text \<open>The events that a run from \<open>w\<close> to \<open>w'\<close> has added, and the form data among them.\<close>

definition new_events :: "world \<Rightarrow> world \<Rightarrow> event list" where
  "new_events w w' = drop (length (trace w)) (trace w')"

fun submitted :: "event list \<Rightarrow> (nat \<times> string) list" where
  "submitted [] = []"
| "submitted (Submit f vs # evs) = vs @ submitted evs"
| "submitted (ev # evs) = submitted evs"

section \<open>Elements as the wiring leaves them\<close>

text \<open>The element after \<open>polyfill\<close>: activated, with the three handlers.\<close>

definition wire :: "element \<Rightarrow> element" where
  "wire e = (activatePlaceholder e)\<lparr>onclick := Some CallOnClick, onfocus := Some CallOnFocus,
                                  onblur := Some CallOnBlur\<rparr>"

text \<open>
  The decoy that \<open>polyfillPassword\<close> builds for the password element \<open>e\<close> (before insertion),
  and the password element afterwards.
\<close>

definition decoy_of :: "bool \<Rightarrow> nat \<Rightarrow> nat \<Rightarrow> element \<Rightarrow> element" where
  "decoy_of cl r d e =
     (activatePlaceholder
        \<lparr>el_type = ''text'', el_name = [], el_value = [], className = className e,
         placeholder = placeholder e, placeholderAttr = None, classList = cl,
         el_form = None, parentNode = None, onclick = None, onfocus = None,
         onblur = None, onselectstart = None, onmousedown = None\<rparr>)
       \<lparr>onclick := Some (CallOnClickPassword r d), onfocus := Some (CallOnFocusPassword r d)\<rparr>"

definition hide :: "nat \<Rightarrow> nat \<Rightarrow> element \<Rightarrow> element" where
  "hide r d e = addClass (e\<lparr>onblur := Some (CallOnBlurPassword r d)\<rparr>) ''displayNone''"

text \<open>
  From the page \<open>w\<close> to the page \<open>w'\<close> no element is lost, no element changes its type and
  no password element changes its value.
\<close>

definition keeps_passwords :: "world \<Rightarrow> world \<Rightarrow> bool" where
  "keeps_passwords w w' =
     (length (elems w) \<le> length (elems w') \<and>
      (\<forall>i<length (elems w).
         el_type (elems w' ! i) = el_type (elems w ! i) \<and>
         (el_type (elems w ! i) = ''password'' \<longrightarrow>
            el_value (elems w' ! i) = el_value (elems w ! i))))"

section \<open>Example pages\<close>

text \<open>\<open><input type=ty name=nm class=cls placeholder=ph>\<close> inside form 0, in a legacy browser.\<close>

definition input_element :: "string \<Rightarrow> string \<Rightarrow> string \<Rightarrow> string \<Rightarrow> element" where
  "input_element ty nm cls ph =
     \<lparr>el_type = ty, el_name = nm, el_value = [], className = cls, placeholder = [],
      placeholderAttr = Some ph, classList = False, el_form = Some 0, parentNode = Some 0,
      onclick = None, onfocus = None, onblur = None, onselectstart = None,
      onmousedown = None\<rparr>"

text \<open>
  A login page in a browser without placeholders: a form named \<open>login\<close>, with no id and with
  an \<open>onsubmit\<close> handler of its own, holding a text field and a password field.
\<close>

definition login_form :: form where
  "login_form =
     \<lparr>form_id = [], form_name = ''login'', onsubmit = Some (ForeignOnsubmit 7),
      beforeOnSubmitProp = None, afterOnSubmitProp = None, onSubmitIsSet = False\<rparr>"

definition login_page :: world where
  "login_page =
     \<lparr>elems = [input_element ''text'' ''user'' ''big'' ''Your name'',
               input_element ''password'' ''pw'' [] ''Password''],
      forms = [login_form], inputs = [0, 1], activeElement = None,
      placeholderSupported = False, classListSupported = False, trace = []\<rparr>"

text \<open>
  A search page in the same browser: one text field whose class attribute repeats the word
  \<open>placeholder\<close>, in a form without handlers.
\<close>

definition search_page :: world where
  "search_page =
     \<lparr>elems = [input_element ''text'' ''q'' ''placeholder placeholder placeholder'' ''Search''],
      forms = [\<lparr>form_id = ''search'', form_name = [], onsubmit = None,
                beforeOnSubmitProp = None, afterOnSubmitProp = None, onSubmitIsSet = False\<rparr>],
      inputs = [0], activeElement = None, placeholderSupported = False,
      classListSupported = False, trace = []\<rparr>"

text \<open>
  The search page after the constructor has run and the user has focused the field, typed
  \<open>cats\<close> and left the field.
\<close>

definition typed_page :: world where
  "typed_page =
     run_handler CallOnBlur 0
       (user_types 0 ''cats''
         (run_handler CallOnFocus 0 (world_of (placeholderPolyfill search_page))))"

text \<open>The login page once \<open>getElementsWithPlaceholders\<close> has run.\<close>

definition gathered_page :: world where
  "gathered_page = snd (getElementsWithPlaceholders login_page)"

text \<open>
  The login page once the constructor has run, and its parts: the wired text field, the
  hidden password field, the decoy of the password field, and the form with its hooks.
\<close>

definition wired_page :: world where
  "wired_page = world_of (placeholderPolyfill login_page)"

definition user_field :: element where
  "user_field =
     \<lparr>el_type = ''text'', el_name = ''user'', el_value = ''Your name'',
      className = ''big placeholder'', placeholder = ''Your name'',
      placeholderAttr = Some ''Your name'', classList = False, el_form = Some 0,
      parentNode = Some 0, onclick = Some CallOnClick, onfocus = Some CallOnFocus,
      onblur = Some CallOnBlur, onselectstart = Some ReturnFalse,
      onmousedown = Some ReturnFalse\<rparr>"

definition password_field :: element where
  "password_field =
     \<lparr>el_type = ''password'', el_name = ''pw'', el_value = [],
      className = ''displayNone'', placeholder = ''Password'',
      placeholderAttr = Some ''Password'', classList = False, el_form = Some 0,
      parentNode = Some 0, onclick = None, onfocus = None,
      onblur = Some (CallOnBlurPassword 1 2), onselectstart = None,
      onmousedown = None\<rparr>"

definition password_decoy :: element where
  "password_decoy =
     \<lparr>el_type = ''text'', el_name = [], el_value = ''Password'',
      className = ''placeholder'', placeholder = ''Password'',
      placeholderAttr = None, classList = False, el_form = Some 0,
      parentNode = Some 0, onclick = Some (CallOnClickPassword 1 2),
      onfocus = Some (CallOnFocusPassword 1 2), onblur = None,
      onselectstart = Some ReturnFalse, onmousedown = Some ReturnFalse\<rparr>"

definition wired_form :: form where
  "wired_form =
     \<lparr>form_id = [], form_name = ''login'', onsubmit = Some (CustomOnsubmit 0),
      beforeOnSubmitProp = Some (Composed None (CallBeforeOnSubmit 0)),
      afterOnSubmitProp = Some (Composed None (CallAfterOnSubmit 0)),
      onSubmitIsSet = True\<rparr>"

text \<open>The same page in a browser that has placeholders.\<close>

definition modern_page :: world where
  "modern_page = login_page\<lparr>placeholderSupported := True\<rparr>"

text \<open>The login form once both custom events have a function.\<close>

definition hooked_page :: world where
  "hooked_page =
     addAfterOnSubmit 0 (CallAfterOnSubmit 0) (addBeforeOnSubmit 0 (CallBeforeOnSubmit 0) login_page)"

section \<open>The feature-detection gate\<close>

text \<open>
  Claim C6. When \<open>placeholderIsSupported()\<close> returns true, \<open>placeholderPolyfill\<close> returns with
  the page as it was: no element's value, class or handlers change, no element is created,
  no form's \<open>onsubmit\<close> is replaced and nothing is logged.
\<close>

theorem placeholderPolyfill_supported:
  assumes "placeholderIsSupported w"
  shows "placeholderPolyfill w = Returned () w"
  using assms by (simp add: placeholderPolyfill_def)

theorem placeholderPolyfill_supported_witness:
  "placeholderIsSupported modern_page \<and> placeholderPolyfill modern_page = Returned () modern_page"
proof -
  have supported: "placeholderIsSupported modern_page"
    by (simp add: placeholderIsSupported_def modern_page_def)
  from placeholderPolyfill_supported [OF supported] supported show ?thesis by simp
qed

section \<open>Installing the custom submit events\<close>

lemma upd_form_nth:
  "form < length (forms w) \<Longrightarrow> forms (upd_form form g w) ! form = g (forms w ! form)"
  by (simp add: upd_form_def)

lemma forms_log_event: "forms (log_event ev w) = forms w"
  by (simp add: log_event_def)

lemma setCustom_installs:
  assumes "form < length (forms w)"
    and "\<not> onSubmitIsSet (forms w ! form)"
    and "beforeOnSubmitProp (forms w ! form) \<noteq> None"
    and "afterOnSubmitProp (forms w ! form) \<noteq> None"
  shows "forms (setCustomBeforeAndAfterOnSubmitEvents form w) ! form =
           (forms w ! form)\<lparr>onsubmit := Some (CustomOnsubmit form), onSubmitIsSet := True\<rparr>"
  using assms
  by (simp add: setCustomBeforeAndAfterOnSubmitEvents_def Let_def upd_form_nth forms_log_event)

lemma setCustom_trace:
  "trace (setCustomBeforeAndAfterOnSubmitEvents form w) =
     trace w @
     (if \<not> onSubmitIsSet (forms w ! form) \<and> beforeOnSubmitProp (forms w ! form) \<noteq> None \<and>
         afterOnSubmitProp (forms w ! form) \<noteq> None \<and> onsubmit (forms w ! form) \<noteq> None
      then [ConsoleLog (warning (forms w ! form))] else [])"
  by (simp add: setCustomBeforeAndAfterOnSubmitEvents_def Let_def upd_form_def log_event_def)

lemma warning_with_id:
  "form_id f \<noteq> [] \<Longrightarrow>
   extraInfo f = '' with id `'' @ form_id f @ ''`''"
  by (simp add: extraInfo_def)

text \<open>
  Claim C9. A successful installation sets \<open>form.onSubmitIsSet\<close>, and in every page \<open>w'\<close> in
  which the flag of the form is set a further call changes nothing: \<open>form.onsubmit\<close> stays
  and no warning is logged.
\<close>

theorem setCustom_idempotent:
  assumes "form < length (forms w)"
    and "\<not> onSubmitIsSet (forms w ! form)"
    and "beforeOnSubmitProp (forms w ! form) \<noteq> None"
    and "afterOnSubmitProp (forms w ! form) \<noteq> None"
    and "onSubmitIsSet (forms w' ! form)"
  shows "onSubmitIsSet (forms (setCustomBeforeAndAfterOnSubmitEvents form w) ! form) \<and>
         setCustomBeforeAndAfterOnSubmitEvents form w' = w' \<and>
         onsubmit (forms (setCustomBeforeAndAfterOnSubmitEvents form w') ! form) =
           onsubmit (forms w' ! form) \<and>
         trace (setCustomBeforeAndAfterOnSubmitEvents form w') = trace w'"
proof -
  have "onSubmitIsSet (forms (setCustomBeforeAndAfterOnSubmitEvents form w) ! form)"
    using assms(1-4) by (simp add: setCustom_installs)
  moreover have "setCustomBeforeAndAfterOnSubmitEvents form w' = w'"
    using assms(5) by (simp add: setCustomBeforeAndAfterOnSubmitEvents_def)
  ultimately show ?thesis by simp
qed

lemma hooked_page_form:
  "forms hooked_page =
     [login_form\<lparr>beforeOnSubmitProp := Some (Composed None (CallBeforeOnSubmit 0)),
                 afterOnSubmitProp := Some (Composed None (CallAfterOnSubmit 0))\<rparr>]"
  by (simp add: hooked_page_def addAfterOnSubmit_def addBeforeOnSubmit_def upd_form_def
      login_page_def login_form_def)

lemma hooked_page_trace: "trace hooked_page = []"
  by (simp add: hooked_page_def addAfterOnSubmit_def addBeforeOnSubmit_def upd_form_def
      login_page_def)

theorem setCustom_idempotent_witness:
  "onSubmitIsSet (forms (setCustomBeforeAndAfterOnSubmitEvents 0 hooked_page) ! 0) \<and>
   setCustomBeforeAndAfterOnSubmitEvents 0 (setCustomBeforeAndAfterOnSubmitEvents 0 hooked_page) =
     setCustomBeforeAndAfterOnSubmitEvents 0 hooked_page"
proof -
  have a: "0 < length (forms hooked_page)"
    and b: "\<not> onSubmitIsSet (forms hooked_page ! 0)"
    and c: "beforeOnSubmitProp (forms hooked_page ! 0) \<noteq> None"
    and d: "afterOnSubmitProp (forms hooked_page ! 0) \<noteq> None"
    by (simp_all add: hooked_page_form login_form_def)
  have e: "onSubmitIsSet (forms (setCustomBeforeAndAfterOnSubmitEvents 0 hooked_page) ! 0)"
    using a b c d by (simp add: setCustom_installs)
  from setCustom_idempotent [OF a b c d e] show ?thesis by simp
qed

text \<open>
  Claim C7. With the hooks set and the flag not yet set, a form that already has an
  \<open>onsubmit\<close> handler gets a warning on the console, a form without one gets none
  (\<open>setCustom_trace\<close>), and the handler is replaced by the wrapper (\<open>setCustom_installs\<close>). A
  form with an id is named by it (\<open>warning_with_id\<close>). The warning should name a form
  without id by its name; for the login form, whose name is \<open>login\<close>, the logged text is
  \<open>with name ``\<close>: the branch for the name inserts \<open>form.id\<close>, which is empty there.
\<close>

theorem warning_names_form_by_empty_id:
  "trace (setCustomBeforeAndAfterOnSubmitEvents 0 hooked_page) =
     [ConsoleLog (''Onsubmit event was already set on form with name ``. Make sure that all'' @
        '' scripts used on this form use the custom `beforeOnSubmit` and `afterOnSubmit` events to ensure that'' @
        '' that all functionalities are operational.'')] \<and>
   onsubmit (forms (setCustomBeforeAndAfterOnSubmitEvents 0 hooked_page) ! 0) =
     Some (CustomOnsubmit 0)"
  by (simp add: setCustomBeforeAndAfterOnSubmitEvents_def Let_def hooked_page_form
      hooked_page_trace login_form_def upd_form_def log_event_def warning_def extraInfo_def)

section \<open>Registering functions for the custom events\<close>

lemma call_fn_registered: "call_fn g w = run_all (registered g) w"
  by (induction g w rule: call_fn.induct) (simp_all add: run_all_def)

lemma call_opt_registered: "call_opt p w = run_all (registered_opt p) w"
  by (cases p) (simp_all add: call_opt_def registered_opt_def call_fn_registered run_all_def)

lemma registered_opt_Composed: "registered_opt (Some (Composed p c)) = registered_opt p @ [c]"
  by (cases p) (simp_all add: registered_opt_def)

lemma length_forms_upd_form: "length (forms (upd_form form g w)) = length (forms w)"
  by (simp add: upd_form_def)

lemma addBeforeOnSubmit_registered:
  "form < length (forms w) \<Longrightarrow>
   registered_opt (beforeOnSubmitProp (forms (addBeforeOnSubmit form c w) ! form)) =
     registered_opt (beforeOnSubmitProp (forms w ! form)) @ [c]"
  by (simp add: addBeforeOnSubmit_def upd_form_nth registered_opt_Composed)

lemma addAfterOnSubmit_registered:
  "form < length (forms w) \<Longrightarrow>
   registered_opt (afterOnSubmitProp (forms (addAfterOnSubmit form c w) ! form)) =
     registered_opt (afterOnSubmitProp (forms w ! form)) @ [c]"
  by (simp add: addAfterOnSubmit_def upd_form_nth registered_opt_Composed)

lemma length_forms_addBefore: "length (forms (addBeforeOnSubmit form c w)) = length (forms w)"
  by (simp add: addBeforeOnSubmit_def length_forms_upd_form)

lemma length_forms_addAfter: "length (forms (addAfterOnSubmit form c w)) = length (forms w)"
  by (simp add: addAfterOnSubmit_def length_forms_upd_form)

lemma addBefore_all_registered:
  "form < length (forms w) \<Longrightarrow>
   form < length (forms (foldl (\<lambda>v c. addBeforeOnSubmit form c v) w cs)) \<and>
   registered_opt (beforeOnSubmitProp (forms (foldl (\<lambda>v c. addBeforeOnSubmit form c v) w cs) ! form)) =
     registered_opt (beforeOnSubmitProp (forms w ! form)) @ cs"
proof (induction cs arbitrary: w)
  case Nil
  then show ?case by simp
next
  case (Cons c cs)
  have "form < length (forms (addBeforeOnSubmit form c w))"
    using Cons.prems by (simp add: length_forms_addBefore)
  from Cons.IH [OF this] show ?case
    using Cons.prems by (simp add: addBeforeOnSubmit_registered)
qed

lemma addAfter_all_registered:
  "form < length (forms w) \<Longrightarrow>
   form < length (forms (foldl (\<lambda>v c. addAfterOnSubmit form c v) w cs)) \<and>
   registered_opt (afterOnSubmitProp (forms (foldl (\<lambda>v c. addAfterOnSubmit form c v) w cs) ! form)) =
     registered_opt (afterOnSubmitProp (forms w ! form)) @ cs"
proof (induction cs arbitrary: w)
  case Nil
  then show ?case by simp
next
  case (Cons c cs)
  have "form < length (forms (addAfterOnSubmit form c w))"
    using Cons.prems by (simp add: length_forms_addAfter)
  from Cons.IH [OF this] show ?case
    using Cons.prems by (simp add: addAfterOnSubmit_registered)
qed

lemma run_all_append: "run_all (cs @ ds) w = run_all ds (run_all cs w)"
  by (simp add: run_all_def)

text \<open>
  Claim C8. After any sequence \<open>cs\<close> of calls of \<open>addBeforeOnSubmit\<close> on a form, the function in
  \<open>form.beforeOnSubmit\<close> holds the functions registered before followed by \<open>cs\<close>, and calling
  it runs the earlier functions and then each function of \<open>cs\<close> once, in the order of
  registration; the same holds for \<open>addAfterOnSubmit\<close> and \<open>form.afterOnSubmit\<close>.
\<close>

theorem added_functions_run_in_order:
  assumes "form < length (forms w)"
  shows "(let w' = foldl (\<lambda>v c. addBeforeOnSubmit form c v) w cs
          in registered_opt (beforeOnSubmitProp (forms w' ! form)) =
               registered_opt (beforeOnSubmitProp (forms w ! form)) @ cs \<and>
             (\<forall>v. call_opt (beforeOnSubmitProp (forms w' ! form)) v =
                  run_all cs (call_opt (beforeOnSubmitProp (forms w ! form)) v))) \<and>
         (let w' = foldl (\<lambda>v c. addAfterOnSubmit form c v) w cs
          in registered_opt (afterOnSubmitProp (forms w' ! form)) =
               registered_opt (afterOnSubmitProp (forms w ! form)) @ cs \<and>
             (\<forall>v. call_opt (afterOnSubmitProp (forms w' ! form)) v =
                  run_all cs (call_opt (afterOnSubmitProp (forms w ! form)) v)))"
  using addBefore_all_registered [OF assms, of cs] addAfter_all_registered [OF assms, of cs]
  by (simp add: Let_def call_opt_registered run_all_append)

theorem added_functions_run_in_order_witness:
  "0 < length (forms login_page) \<and>
   (let w' = foldl (\<lambda>v c. addBeforeOnSubmit 0 c v) login_page
               [ForeignFunction 1, CallBeforeOnSubmit 0, ForeignFunction 2]
    in beforeOnSubmitProp (forms w' ! 0) =
         Some (Composed (Some (Composed (Some (Composed None (ForeignFunction 1)))
                 (CallBeforeOnSubmit 0))) (ForeignFunction 2)) \<and>
       registered_opt (beforeOnSubmitProp (forms w' ! 0)) =
         [ForeignFunction 1, CallBeforeOnSubmit 0, ForeignFunction 2] \<and>
       trace (call_opt (beforeOnSubmitProp (forms w' ! 0)) login_page) = [Call 1, Call 2])"
proof -
  have a: "0 < length (forms login_page)"
    by (simp add: login_page_def)
  have b: "beforeOnSubmitProp (forms login_page ! 0) = None"
    by (simp add: login_page_def login_form_def)
  have c: "beforeOnSubmitProp (forms (foldl (\<lambda>v c. addBeforeOnSubmit 0 c v) login_page
               [ForeignFunction 1, CallBeforeOnSubmit 0, ForeignFunction 2]) ! 0) =
         Some (Composed (Some (Composed (Some (Composed None (ForeignFunction 1)))
                 (CallBeforeOnSubmit 0))) (ForeignFunction 2))"
    by (simp add: login_page_def login_form_def addBeforeOnSubmit_def upd_form_def)
  have d: "trace (run_all [ForeignFunction 1, CallBeforeOnSubmit 0, ForeignFunction 2] login_page) = [Call 1, Call 2]"
    by (simp add: run_all_def run_callback_def log_event_def upd_elem_def login_page_def)
  from added_functions_run_in_order [OF a, of "[ForeignFunction 1, CallBeforeOnSubmit 0, ForeignFunction 2]"]
  show ?thesis using a b c d by (simp add: Let_def call_opt_def registered_opt_def)
qed

section \<open>Class names\<close>

subsection \<open>The regular expression\<close>

lemma after_name_self: "after_name c c = Some []"
  by (simp add: after_name_def)

lemma find_class_after_space:
  "js_space x \<Longrightarrow> find_class c b (p @ x # c) \<noteq> None"
proof (induction p arbitrary: b)
  case Nil
  then show ?case by (simp add: after_name_self)
next
  case (Cons y p)
  from Cons.IH [OF Cons.prems, of False] show ?case
    by (auto split: option.splits)
qed

lemma find_class_whole:
  assumes "c \<noteq> []" and "\<not> js_space (hd c)"
  shows "find_class c True c \<noteq> None"
proof (cases c)
  case Nil
  with assms show ?thesis by simp
next
  case (Cons y ys)
  have "after_name (y # ys) (y # ys) = Some []" by (rule after_name_self)
  with Cons assms show ?thesis by simp
qed

lemma trim_end_of_name:
  assumes "c \<noteq> []" and "\<forall>ch\<in>set c. \<not> js_space ch"
  shows "rev (dropWhile js_space (rev (q @ c))) = q @ c"
proof -
  from assms(1) obtain b l where c: "c = b @ [l]"
    by (metis rev_exhaust)
  with assms(2) have "\<not> js_space l" by simp
  with c show ?thesis by simp
qed

lemma trim_blank_then_name:
  assumes "c \<noteq> []" and "\<forall>ch\<in>set c. \<not> js_space ch" and "\<forall>ch\<in>set s. js_space ch"
  shows "trim (s @ CHR '' '' # c) = c"
proof -
  have sp: "js_space (CHR '' '')" by (simp add: js_space_def)
  from assms have "dropWhile js_space c = c" by (cases c) simp_all
  with assms(3) sp have "dropWhile js_space (s @ CHR '' '' # c) = c"
    by (simp add: dropWhile_append2)
  with trim_end_of_name [OF assms(1,2), of "[]"] show ?thesis by (simp add: trim_def)
qed

lemma trim_text_then_name:
  assumes "c \<noteq> []" and "\<forall>ch\<in>set c. \<not> js_space ch" and "x \<in> set s" and "\<not> js_space x"
  shows "trim (s @ CHR '' '' # c) = dropWhile js_space s @ CHR '' '' # c"
proof -
  from assms(3,4)
  have "dropWhile js_space (s @ CHR '' '' # c) = dropWhile js_space s @ CHR '' '' # c"
    by (rule dropWhile_append1)
  with trim_end_of_name [OF assms(1,2), of "dropWhile js_space s @ '' ''"] show ?thesis
    by (simp add: trim_def)
qed

lemma regex_match_appended:
  assumes "c \<noteq> []" and "\<forall>ch\<in>set c. \<not> js_space ch"
  shows "regex_match c (trim (s @ CHR '' '' # c))"
proof (cases "\<forall>ch\<in>set s. js_space ch")
  case True
  from assms have "\<not> js_space (hd c)" by (cases c) simp_all
  with assms(1) have "find_class c True c \<noteq> None" by (rule find_class_whole)
  with trim_blank_then_name [OF assms True] show ?thesis by (simp add: regex_match_def)
next
  case False
  then obtain x where x: "x \<in> set s" "\<not> js_space x" by blast
  have "js_space (CHR '' '')" by (simp add: js_space_def)
  then have "find_class c True (dropWhile js_space s @ CHR '' '' # c) \<noteq> None"
    by (rule find_class_after_space)
  with trim_text_then_name [OF assms x] show ?thesis by (simp add: regex_match_def)
qed

subsection \<open>Token lists\<close>

lemma split_tokens_word:
  "\<forall>ch\<in>set t. \<not> ascii_space ch \<Longrightarrow> split_tokens cur (t @ rest) = split_tokens (cur @ t) rest"
  by (induction t arbitrary: cur) simp_all

lemma split_tokens_serialize:
  "\<forall>t\<in>set ts. token t \<Longrightarrow> split_tokens [] (serialize ts) = ts"
proof (induction ts rule: serialize.induct)
  case 1
  then show ?case by simp
next
  case (2 t)
  then have "split_tokens [] (t @ []) = split_tokens ([] @ t) []"
    by (intro split_tokens_word) (simp add: token_def)
  with 2 show ?case by (simp add: token_def)
next
  case (3 t u us)
  have sp: "ascii_space (CHR '' '')" by (simp add: ascii_space_def)
  from 3 have "split_tokens [] (t @ CHR '' '' # serialize (u # us)) =
           split_tokens ([] @ t) (CHR '' '' # serialize (u # us))"
    by (intro split_tokens_word) (simp add: token_def)
  with 3 sp show ?case by (simp add: token_def)
qed

lemma set_ordered_set: "set (ordered_set ts) = set ts"
proof (induction ts rule: ordered_set.induct)
  case 1
  then show ?case by simp
next
  case (2 t ts)
  then show ?case by auto
qed

lemma split_tokens_are_tokens:
  "\<forall>ch\<in>set cur. \<not> ascii_space ch \<Longrightarrow> \<forall>t\<in>set (split_tokens cur s). token t"
proof (induction s arbitrary: cur)
  case Nil
  then show ?case by (simp add: token_def)
next
  case (Cons x s)
  show ?case
  proof (cases "ascii_space x")
    case True
    have rest: "\<forall>t\<in>set (split_tokens [] s). token t"
      by (rule Cons.IH) simp
    from Cons.prems have "cur \<noteq> [] \<Longrightarrow> token cur" by (simp add: token_def)
    with True rest show ?thesis by simp
  next
    case False
    with Cons.prems have "\<forall>ch\<in>set (cur @ [x]). \<not> ascii_space ch" by simp
    then have "\<forall>t\<in>set (split_tokens (cur @ [x]) s). token t" by (rule Cons.IH)
    with False show ?thesis by simp
  qed
qed

lemma token_set_tokens: "\<forall>t\<in>set (token_set s). token t"
  using split_tokens_are_tokens [of "[]" s] by (simp add: token_set_def set_ordered_set)

lemma set_token_set_serialize:
  "\<forall>t\<in>set ts. token t \<Longrightarrow> set (token_set (serialize ts)) = set ts"
  by (simp add: token_set_def set_ordered_set split_tokens_serialize)

lemma js_space_ascii: "ascii_space ch \<Longrightarrow> js_space ch"
  by (auto simp: ascii_space_def js_space_def)

lemma hasClass_addClass:
  assumes "cn \<noteq> []" and "\<forall>ch\<in>set cn. \<not> js_space ch"
  shows "hasClass (addClass element cn) cn"
proof (cases "classList element")
  case True
  from assms have tok: "token cn" by (auto simp: token_def dest: js_space_ascii)
  let ?ts = "token_set (className element)"
  have "\<forall>t\<in>set (if cn \<in> set ?ts then ?ts else ?ts @ [cn]). token t"
    using token_set_tokens [of "className element"] tok by simp
  then have "set (token_set (serialize (if cn \<in> set ?ts then ?ts else ?ts @ [cn]))) =
        set (if cn \<in> set ?ts then ?ts else ?ts @ [cn])"
    by (rule set_token_set_serialize)
  with True show ?thesis by (simp add: hasClass_def addClass_def Let_def)
next
  case False
  with regex_match_appended [OF assms, of "className element"] show ?thesis
    by (simp add: hasClass_def addClass_def)
qed

subsection \<open>Adding and removing a class\<close>

lemma addClass_fields:
  "el_value (addClass e cn) = el_value e"
  "placeholder (addClass e cn) = placeholder e"
  "el_type (addClass e cn) = el_type e"
  "el_name (addClass e cn) = el_name e"
  "el_form (addClass e cn) = el_form e"
  "parentNode (addClass e cn) = parentNode e"
  "classList (addClass e cn) = classList e"
  by (simp_all add: addClass_def)

lemma removeClass_fields:
  "el_value (removeClass e cn) = el_value e"
  "placeholder (removeClass e cn) = placeholder e"
  "el_type (removeClass e cn) = el_type e"
  "el_name (removeClass e cn) = el_name e"
  "el_form (removeClass e cn) = el_form e"
  "parentNode (removeClass e cn) = parentNode e"
  "classList (removeClass e cn) = classList e"
  by (simp_all add: removeClass_def Let_def)

lemma addClass_present_unchanged:
  "\<not> classList element \<Longrightarrow> hasClass element cn \<Longrightarrow> addClass element cn = element"
  by (simp add: addClass_def)

lemmas class_eval = hasClass_def removeClass_def addClass_def regex_match_def regex_replace_def
  after_name_def trim_def js_space_def input_element_def Let_def

text \<open>
  Claim C10, without \<open>classList\<close>. After \<open>addClass\<close> the class is present
  (\<open>hasClass_addClass\<close>) and a present class is not added again
  (\<open>addClass_present_unchanged\<close>). \<open>removeClass\<close> should leave the other tokens as they are
  and the class absent. It deletes the first occurrence of the class name as a substring
  as well, and only one match of the expression: removing \<open>placeholder\<close> from
  \<open>input-placeholder placeholder\<close> leaves \<open>input-\<close>, removing \<open>menu\<close> from \<open>menu menubar\<close>
  leaves \<open>bar\<close>, and removing \<open>a\<close> from \<open>a a a\<close> leaves \<open>a\<close>, still present.
\<close>

theorem removeClass_loses_tokens:
  "hasClass (input_element ''text'' ''q'' ''input-placeholder placeholder'' ''Search'')
     ''placeholder'' \<and>
   className (removeClass
     (input_element ''text'' ''q'' ''input-placeholder placeholder'' ''Search'')
     ''placeholder'') = ''input-'' \<and>
   className (removeClass (input_element ''text'' ''q'' ''menu menubar'' ''Search'') ''menu'') =
     ''bar'' \<and>
   className (removeClass (input_element ''text'' ''q'' ''a a a'' ''Search'') ''a'') = ''a'' \<and>
   hasClass (removeClass (input_element ''text'' ''q'' ''a a a'' ''Search'') ''a'') ''a''"
  by (simp add: class_eval)

section \<open>Focus\<close>

lemmas wiring_eval = placeholderPolyfill_def placeholderIsSupported_def
  getElementsWithPlaceholders_def polyfill_def polyfillPassword_def createElement_def
  upd_elem_def upd_form_def addBeforeOnSubmit_def addAfterOnSubmit_def
  setCustomBeforeAndAfterOnSubmitEvents_def log_event_def activatePlaceholder_def
  disableTextSelection_def placeholderClassName_def

lemma search_page_wired:
  "placeholderPolyfill search_page =
     Returned ()
       (search_page\<lparr>elems :=
          [(input_element ''text'' ''q'' ''placeholder placeholder placeholder'' ''Search'')
             \<lparr>el_value := ''Search'', placeholder := ''Search'',
              onclick := Some CallOnClick, onfocus := Some CallOnFocus,
              onblur := Some CallOnBlur, onselectstart := Some ReturnFalse,
              onmousedown := Some ReturnFalse\<rparr>],
        forms :=
          [\<lparr>form_id = ''search'', form_name = [], onsubmit = Some (CustomOnsubmit 0),
            beforeOnSubmitProp = Some (Composed None (CallBeforeOnSubmit 0)),
            afterOnSubmitProp = Some (Composed None (CallAfterOnSubmit 0)),
            onSubmitIsSet = True\<rparr>]\<rparr>)"
  by (simp add: search_page_def wiring_eval class_eval)

lemma onFocus_other_parts:
  "(hasClass e placeholderClassName \<longrightarrow>
      el_value (onFocus e) = [] \<and> onselectstart (onFocus e) = None \<and>
      onmousedown (onFocus e) = None) \<and>
   (\<not> hasClass e placeholderClassName \<longrightarrow> onFocus e = e)"
  by (simp add: onFocus_def deactivatePlaceholder_def enableTextSelection_def removeClass_fields)

text \<open>
  Claim C3. Focusing an element that shows its placeholder should empty the value, remove
  the marker class and enable text selection, and focusing an element without the marker
  changes nothing. The value, the selection handlers and the element without marker behave
  so (\<open>onFocus_other_parts\<close>); the marker class is not always removed. On the search page
  the wired field carries the marker and shows \<open>Search\<close>; its \<open>onfocus\<close> handler empties the
  value, but the class attribute becomes \<open>placeholder\<close> and the marker is still present.
\<close>

theorem focus_keeps_repeated_marker:
  "(let w1 = world_of (placeholderPolyfill search_page)
    in onfocus (elems w1 ! 0) = Some CallOnFocus \<and>
       hasClass (elems w1 ! 0) placeholderClassName \<and>
       el_value (elems w1 ! 0) = ''Search'' \<and>
       (let e2 = elems (run_handler CallOnFocus 0 w1) ! 0
        in el_value e2 = [] \<and> className e2 = ''placeholder'' \<and>
           hasClass e2 placeholderClassName))"
proof -
  define e1 where "e1 = elems (world_of (placeholderPolyfill search_page)) ! 0"
  have e1: "e1 = (input_element ''text'' ''q'' ''placeholder placeholder placeholder'' ''Search'')
             \<lparr>el_value := ''Search'', placeholder := ''Search'',
              onclick := Some CallOnClick, onfocus := Some CallOnFocus,
              onblur := Some CallOnBlur, onselectstart := Some ReturnFalse,
              onmousedown := Some ReturnFalse\<rparr>"
    by (simp add: e1_def search_page_wired)
  have shown: "hasClass e1 placeholderClassName"
    by (simp add: e1 placeholderClassName_def class_eval)
  have focused: "el_value (onFocus e1) = [] \<and> className (onFocus e1) = ''placeholder'' \<and>
      hasClass (onFocus e1) placeholderClassName"
    by (simp add: e1 onFocus_def deactivatePlaceholder_def enableTextSelection_def
        placeholderClassName_def class_eval)
  have "elems (run_handler CallOnFocus 0 (world_of (placeholderPolyfill search_page))) ! 0 =
          onFocus e1"
    by (simp add: run_handler_def upd_elem_def e1_def search_page_wired)
  with shown focused show ?thesis
    by (simp add: Let_def e1_def [symmetric]) (simp add: e1 input_element_def)
qed

section \<open>Activation, wiring and blur\<close>

lemma hasClass_cong:
  "className a = className b \<Longrightarrow> classList a = classList b \<Longrightarrow> hasClass a cn = hasClass b cn"
  by (simp add: hasClass_def)

lemma placeholder_is_token:
  "placeholderClassName \<noteq> [] \<and> (\<forall>ch\<in>set placeholderClassName. \<not> js_space ch)"
  by (simp add: placeholderClassName_def js_space_def)

lemma activatePlaceholder_shows:
  "el_value (activatePlaceholder e) = placeholder e \<and>
   hasClass (activatePlaceholder e) placeholderClassName \<and>
   onselectstart (activatePlaceholder e) = Some ReturnFalse \<and>
   onmousedown (activatePlaceholder e) = Some ReturnFalse"
proof -
  let ?a = "addClass (e\<lparr>el_value := placeholder e\<rparr>) placeholderClassName"
  have "hasClass ?a placeholderClassName"
    using placeholder_is_token by (intro hasClass_addClass) simp_all
  moreover have "hasClass (activatePlaceholder e) placeholderClassName =
      hasClass ?a placeholderClassName"
    by (rule hasClass_cong) (simp_all add: activatePlaceholder_def disableTextSelection_def)
  ultimately show ?thesis
    by (simp add: activatePlaceholder_def disableTextSelection_def addClass_fields)
qed

lemma activatePlaceholder_fields:
  "placeholder (activatePlaceholder e) = placeholder e"
  "el_type (activatePlaceholder e) = el_type e"
  "el_name (activatePlaceholder e) = el_name e"
  "el_form (activatePlaceholder e) = el_form e"
  "parentNode (activatePlaceholder e) = parentNode e"
  "classList (activatePlaceholder e) = classList e"
  "onclick (activatePlaceholder e) = onclick e"
  "onfocus (activatePlaceholder e) = onfocus e"
  "onblur (activatePlaceholder e) = onblur e"
  by (simp_all add: activatePlaceholder_def disableTextSelection_def addClass_def)

subsection \<open>What the form functions leave alone\<close>

lemma elems_upd_form: "elems (upd_form f g w) = elems w"
  by (simp add: upd_form_def)

lemma elems_log_event: "elems (log_event ev w) = elems w"
  by (simp add: log_event_def)

lemma elems_addBefore: "elems (addBeforeOnSubmit f c w) = elems w"
  by (simp add: addBeforeOnSubmit_def elems_upd_form)

lemma elems_addAfter: "elems (addAfterOnSubmit f c w) = elems w"
  by (simp add: addAfterOnSubmit_def elems_upd_form)

lemma elems_setCustom: "elems (setCustomBeforeAndAfterOnSubmitEvents f w) = elems w"
  by (simp add: setCustomBeforeAndAfterOnSubmitEvents_def Let_def elems_upd_form elems_log_event)

lemma elems_upd_elem: "elems (upd_elem r g w) = (elems w)[r := g (elems w ! r)]"
  by (simp add: upd_elem_def)

lemma elems_polyfill:
  "r < length (elems w) \<Longrightarrow> elems (world_of (polyfill r w)) = (elems w)[r := wire (elems w ! r)]"
  by (simp add: polyfill_def Let_def elems_upd_elem elems_setCustom elems_addAfter
      elems_addBefore wire_def split: option.split)

lemma gathered_page_elems:
  "elems gathered_page =
     [(input_element ''text'' ''user'' ''big'' ''Your name'')\<lparr>placeholder := ''Your name''\<rparr>,
      (input_element ''password'' ''pw'' [] ''Password'')\<lparr>placeholder := ''Password''\<rparr>]"
  by (simp add: gathered_page_def getElementsWithPlaceholders_def login_page_def upd_elem_def
      input_element_def)

section \<open>Password fields\<close>

lemma insert_after_next:
  "r \<in> set xs \<Longrightarrow>
   \<exists>pre post. xs = pre @ r # post \<and> insert_after r d xs = pre @ r # d # post"
proof (induction xs)
  case Nil
  then show ?case by simp
next
  case (Cons x xs)
  show ?case
  proof (cases "x = r")
    case True
    then have "x # xs = [] @ r # xs \<and> insert_after r d (x # xs) = [] @ r # d # xs" by simp
    then show ?thesis by blast
  next
    case False
    with Cons.prems have "r \<in> set xs" by simp
    from Cons.IH [OF this] obtain pre post where
      "xs = pre @ r # post" "insert_after r d xs = pre @ r # d # post" by blast
    with False have "x # xs = (x # pre) @ r # post \<and>
        insert_after r d (x # xs) = (x # pre) @ r # d # post" by simp
    then show ?thesis by blast
  qed
qed

lemma polyfillPassword_result:
  assumes "r < length (elems w)" and "el_type (elems w ! r) = ''password''"
    and "parentNode (elems w ! r) = Some p"
  shows "polyfillPassword r w =
           Returned ()
             (w\<lparr>elems := (elems w)[r := hide r (length (elems w)) (elems w ! r)] @
                   [(decoy_of (classListSupported w) r (length (elems w)) (elems w ! r))
                      \<lparr>parentNode := Some p, el_form := el_form (elems w ! r)\<rparr>],
                inputs := insert_after r (length (elems w)) (inputs w)\<rparr>)"
  using assms
  by (simp add: polyfillPassword_def createElement_def upd_elem_def Let_def nth_append
      list_update_append hide_def decoy_of_def addClass_fields)

lemma keeps_passwords_refl: "keeps_passwords w w"
  by (simp add: keeps_passwords_def)

lemma keeps_passwords_trans:
  "keeps_passwords a b \<Longrightarrow> keeps_passwords b c \<Longrightarrow> keeps_passwords a c"
  by (auto simp: keeps_passwords_def)

lemma hide_fields: "el_type (hide r d e) = el_type e" "el_value (hide r d e) = el_value e"
  by (simp_all add: hide_def addClass_fields)

lemma wire_fields: "el_type (wire e) = el_type e"
  by (simp add: wire_def activatePlaceholder_fields)

lemma set_insert_after: "set (insert_after r d xs) \<subseteq> insert d (set xs)"
  by (induction xs) auto

lemma polyfillPassword_thrown:
  assumes "r < length (elems w)" and "el_type (elems w ! r) = ''password''"
    and "parentNode (elems w ! r) = None"
  shows "polyfillPassword r w =
           Thrown TypeError
             (w\<lparr>elems := (elems w)[r := hide r (length (elems w)) (elems w ! r)] @
                   [decoy_of (classListSupported w) r (length (elems w)) (elems w ! r)]\<rparr>)"
  using assms
  by (simp add: polyfillPassword_def createElement_def upd_elem_def Let_def nth_append
      list_update_append hide_def decoy_of_def addClass_fields)

lemma polyfillPassword_frame:
  assumes "r < length (elems w)" and "el_type (elems w ! r) = ''password''"
  shows "(\<exists>dc. elems (world_of (polyfillPassword r w)) =
            (elems w)[r := hide r (length (elems w)) (elems w ! r)] @ [dc]) \<and>
         set (inputs (world_of (polyfillPassword r w))) \<subseteq> insert (length (elems w)) (set (inputs w))"
proof (cases "parentNode (elems w ! r)")
  case None
  from polyfillPassword_thrown [OF assms this] show ?thesis by auto
next
  case (Some p)
  from polyfillPassword_result [OF assms this] show ?thesis
    by (simp add: set_insert_after)
qed

lemma polyfillPassword_keeps:
  assumes "r < length (elems w)" and "el_type (elems w ! r) = ''password''"
  shows "keeps_passwords w (world_of (polyfillPassword r w))"
proof -
  from polyfillPassword_frame [OF assms] obtain dc where
    "elems (world_of (polyfillPassword r w)) =
       (elems w)[r := hide r (length (elems w)) (elems w ! r)] @ [dc]" by blast
  with assms(1) show ?thesis
    by (auto simp: keeps_passwords_def nth_append nth_list_update hide_fields)
qed

lemma inputs_upd_form: "inputs (upd_form f g w) = inputs w"
  by (simp add: upd_form_def)

lemma inputs_upd_elem: "inputs (upd_elem r g w) = inputs w"
  by (simp add: upd_elem_def)

lemma inputs_polyfill: "inputs (world_of (polyfill r w)) = inputs w"
  by (simp add: polyfill_def Let_def inputs_upd_elem inputs_upd_form addBeforeOnSubmit_def
      addAfterOnSubmit_def setCustomBeforeAndAfterOnSubmitEvents_def log_event_def
      split: option.split)

lemma polyfill_keeps:
  assumes "r < length (elems w)" and "el_type (elems w ! r) \<noteq> ''password''"
  shows "keeps_passwords w (world_of (polyfill r w))"
  using assms
  by (auto simp: keeps_passwords_def elems_polyfill nth_list_update wire_fields)

lemma polyfill_loop_keeps:
  "\<forall>i\<in>set rs. i < length (elems w) \<Longrightarrow> keeps_passwords w (world_of (polyfill_loop rs w))"
proof (induction rs arbitrary: w)
  case Nil
  then show ?case by (simp add: keeps_passwords_refl)
next
  case (Cons r rs)
  let ?step = "if el_type (elems w ! r) = ''password'' then polyfillPassword r w else polyfill r w"
  from Cons.prems have r: "r < length (elems w)" by simp
  have step: "keeps_passwords w (world_of ?step)"
    using r by (simp add: polyfillPassword_keeps polyfill_keeps)
  show ?case
  proof (cases ?step)
    case (Returned u w1)
    with step have k: "keeps_passwords w w1" by simp
    then have "length (elems w) \<le> length (elems w1)" by (simp add: keeps_passwords_def)
    with Cons.prems have "\<forall>i\<in>set rs. i < length (elems w1)" by auto
    then have "keeps_passwords w1 (world_of (polyfill_loop rs w1))" by (rule Cons.IH)
    with k have "keeps_passwords w (world_of (polyfill_loop rs w1))"
      by (rule keeps_passwords_trans)
    with Returned show ?thesis by simp
  next
    case (Thrown e w1)
    with step show ?thesis by simp
  qed
qed

lemma map_update_same:
  assumes "f (g (xs ! r)) = f (xs ! r)"
  shows "map f (xs[r := g (xs ! r)]) = map f xs"
proof (cases "r < length xs")
  case True
  have "(map f xs)[r := map f xs ! r] = map f xs" by (rule list_update_id)
  with True assms show ?thesis by (simp add: map_update)
next
  case False
  then have "xs[r := g (xs ! r)] = xs" by (intro list_update_beyond) simp
  then show ?thesis by simp
qed

lemma gather_frame:
  "map el_type (elems (snd (getElementsWithPlaceholders_loop rs w))) = map el_type (elems w) \<and>
   map el_value (elems (snd (getElementsWithPlaceholders_loop rs w))) = map el_value (elems w) \<and>
   set (fst (getElementsWithPlaceholders_loop rs w)) \<subseteq> set rs"
proof (induction rs arbitrary: w)
  case Nil
  then show ?case by simp
next
  case (Cons r rs)
  let ?w1 = "upd_elem r (\<lambda>e. e\<lparr>placeholder :=
                       (if placeholder e \<noteq> [] then placeholder e
                        else (case placeholderAttr e of None \<Rightarrow> [] | Some a \<Rightarrow> a))\<rparr>) w"
  have t: "map el_type (elems ?w1) = map el_type (elems w)"
    unfolding elems_upd_elem by (rule map_update_same) simp
  have v: "map el_value (elems ?w1) = map el_value (elems w)"
    unfolding elems_upd_elem by (rule map_update_same) simp
  from Cons.IH [of ?w1] Cons.IH [of w] t v show ?case
    by (auto simp: Let_def split: prod.split)
qed

lemma gather_keeps:
  "keeps_passwords w (snd (getElementsWithPlaceholders_loop rs w)) \<and>
   length (elems (snd (getElementsWithPlaceholders_loop rs w))) = length (elems w)"
proof -
  let ?w1 = "snd (getElementsWithPlaceholders_loop rs w)"
  from gather_frame [of rs w]
  have t: "map el_type (elems ?w1) = map el_type (elems w)"
    and v: "map el_value (elems ?w1) = map el_value (elems w)" by simp_all
  from t have len: "length (elems ?w1) = length (elems w)" by (rule map_eq_imp_length_eq)
  have "el_type (elems ?w1 ! i) = el_type (elems w ! i)" if "i < length (elems w)" for i
    using that t len by (metis nth_map)
  moreover have "el_value (elems ?w1 ! i) = el_value (elems w ! i)" if "i < length (elems w)" for i
    using that v len by (metis nth_map)
  ultimately show ?thesis using len by (simp add: keeps_passwords_def)
qed

lemma placeholderPolyfill_keeps:
  assumes "\<forall>i\<in>set (inputs w). i < length (elems w)"
  shows "keeps_passwords w (world_of (placeholderPolyfill w))"
proof (cases "placeholderIsSupported w")
  case True
  then show ?thesis by (simp add: placeholderPolyfill_def keeps_passwords_refl)
next
  case False
  obtain found w1 where g: "getElementsWithPlaceholders_loop (inputs w) w = (found, w1)"
    by (cases "getElementsWithPlaceholders_loop (inputs w) w")
  from gather_keeps [of w "inputs w"] g
  have k: "keeps_passwords w w1" and len: "length (elems w1) = length (elems w)" by simp_all
  from gather_frame [of "inputs w" w] g have "set found \<subseteq> set (inputs w)" by simp
  with assms len have "\<forall>i\<in>set found. i < length (elems w1)" by auto
  then have "keeps_passwords w1 (world_of (polyfill_loop found w1))" by (rule polyfill_loop_keeps)
  with k have "keeps_passwords w (world_of (polyfill_loop found w1))"
    by (rule keeps_passwords_trans)
  with False g show ?thesis
    by (simp add: placeholderPolyfill_def getElementsWithPlaceholders_def)
qed


lemma password_handlers_keep_values:
  "map el_value (elems (onClickPassword r d u)) = map el_value (elems u) \<and>
   map el_value (elems (onFocusPassword r d u)) = map el_value (elems u) \<and>
   map el_value (elems (onBlurPassword r d u)) = map el_value (elems u)"
proof -
  have add: "map el_value (elems (upd_elem i (\<lambda>e. addClass e cn) x)) = map el_value (elems x)"
    for i cn x
    unfolding elems_upd_elem by (rule map_update_same) (simp add: addClass_fields)
  have remove: "map el_value (elems (upd_elem i (\<lambda>e. removeClass e cn) x)) = map el_value (elems x)"
    for i cn x
    unfolding elems_upd_elem by (rule map_update_same) (simp add: removeClass_fields)
  have "elems (focus r x) = elems x" for x by (simp add: focus_def)
  with add remove show ?thesis
    by (simp add: onClickPassword_def onFocusPassword_def onBlurPassword_def)
qed

lemma decoy_of_shows:
  "el_type (decoy_of cl r d e) = ''text'' \<and>
   el_value (decoy_of cl r d e) = placeholder e \<and>
   hasClass (decoy_of cl r d e) placeholderClassName \<and>
   onclick (decoy_of cl r d e) = Some (CallOnClickPassword r d) \<and>
   onfocus (decoy_of cl r d e) = Some (CallOnFocusPassword r d)"
proof -
  let ?new = "\<lparr>el_type = ''text'', el_name = [], el_value = [], className = className e,
         placeholder = placeholder e, placeholderAttr = None, classList = cl,
         el_form = None, parentNode = None, onclick = None, onfocus = None,
         onblur = None, onselectstart = None, onmousedown = None\<rparr>"
  have "hasClass (decoy_of cl r d e) placeholderClassName =
        hasClass (activatePlaceholder ?new) placeholderClassName"
    by (rule hasClass_cong) (simp_all add: decoy_of_def)
  then have "hasClass (decoy_of cl r d e) placeholderClassName"
    by (simp add: activatePlaceholder_shows)
  moreover have "el_value (decoy_of cl r d e) = placeholder e"
    using activatePlaceholder_shows [of ?new] by (simp add: decoy_of_def)
  moreover have "el_type (decoy_of cl r d e) = ''text''"
    by (simp add: decoy_of_def activatePlaceholder_fields)
  ultimately show ?thesis by (simp add: decoy_of_def)
qed

lemma hide_shows:
  "hasClass (hide r d e) ''displayNone'' \<and> onblur (hide r d e) = Some (CallOnBlurPassword r d)"
proof -
  have "''displayNone'' \<noteq> [] \<and> (\<forall>ch\<in>set ''displayNone''. \<not> js_space ch)"
    by (simp add: js_space_def)
  then have "hasClass (hide r d e) ''displayNone''"
    unfolding hide_def by (intro hasClass_addClass) simp_all
  then show ?thesis by (simp add: hide_def addClass_def)
qed

text \<open>
  Claim C2. The constructor \<open>placeholderPolyfill\<close> leaves the value of every password element
  of the page \<open>w\<close> as it was. When \<open>polyfillPassword\<close> runs on a password element \<open>r\<close> of a page
  \<open>v\<close>, with parent \<open>p\<close>, the value of \<open>r\<close> stays, \<open>r\<close> gets the class \<open>displayNone\<close>, and the
  placeholder text goes to a new element \<open>d\<close> of type \<open>text\<close>, which carries the marker class,
  has the same parent and follows \<open>r\<close> directly in the document, as its next sibling. The
  three password handlers change no value of any element.
\<close>

theorem password_value_untouched:
  assumes "\<forall>i\<in>set (inputs w). i < length (elems w)"
    and "r < length (elems w)" and "el_type (elems w ! r) = ''password''"
    and "r < length (elems v)" and "el_type (elems v ! r) = ''password''"
    and "parentNode (elems v ! r) = Some p" and "r \<in> set (inputs v)"
  shows "el_value (elems (world_of (placeholderPolyfill w)) ! r) = el_value (elems w ! r) \<and>
         (let d = length (elems v); v1 = world_of (polyfillPassword r v);
              password = elems v1 ! r; decoy = elems v1 ! d
          in el_value password = el_value (elems v ! r) \<and>
             el_type password = ''password'' \<and>
             hasClass password ''displayNone'' \<and>
             onblur password = Some (CallOnBlurPassword r d) \<and>
             el_type decoy = ''text'' \<and>
             el_value decoy = placeholder (elems v ! r) \<and>
             hasClass decoy placeholderClassName \<and>
             onclick decoy = Some (CallOnClickPassword r d) \<and>
             onfocus decoy = Some (CallOnFocusPassword r d) \<and>
             parentNode decoy = Some p \<and>
             inputs v1 = insert_after r d (inputs v) \<and>
             (\<exists>pre post. inputs v = pre @ r # post \<and> inputs v1 = pre @ r # d # post)) \<and>
         map el_value (elems (onClickPassword r' d' u)) = map el_value (elems u) \<and>
         map el_value (elems (onFocusPassword r' d' u)) = map el_value (elems u) \<and>
         map el_value (elems (onBlurPassword r' d' u)) = map el_value (elems u)"
proof -
  have whole: "el_value (elems (world_of (placeholderPolyfill w)) ! r) = el_value (elems w ! r)"
    using placeholderPolyfill_keeps [OF assms(1)] assms(2,3) by (simp add: keeps_passwords_def)
  let ?d = "length (elems v)"
  let ?dc = "(decoy_of (classListSupported v) r ?d (elems v ! r))
               \<lparr>parentNode := Some p, el_form := el_form (elems v ! r)\<rparr>"
  note res = polyfillPassword_result [OF assms(4,5,6)]
  have pw: "elems (world_of (polyfillPassword r v)) ! r = hide r ?d (elems v ! r)"
    using assms(4) by (simp add: res nth_append)
  have dc: "elems (world_of (polyfillPassword r v)) ! ?d = ?dc"
    by (simp add: res nth_append)
  have ins: "inputs (world_of (polyfillPassword r v)) = insert_after r ?d (inputs v)"
    by (simp add: res)
  have "hasClass ?dc placeholderClassName =
        hasClass (decoy_of (classListSupported v) r ?d (elems v ! r)) placeholderClassName"
    by (rule hasClass_cong) simp_all
  then have marked: "hasClass ?dc placeholderClassName" by (simp add: decoy_of_shows)
  have local: "(let d = length (elems v); v1 = world_of (polyfillPassword r v);
              password = elems v1 ! r; decoy = elems v1 ! d
          in el_value password = el_value (elems v ! r) \<and>
             el_type password = ''password'' \<and>
             hasClass password ''displayNone'' \<and>
             onblur password = Some (CallOnBlurPassword r d) \<and>
             el_type decoy = ''text'' \<and>
             el_value decoy = placeholder (elems v ! r) \<and>
             hasClass decoy placeholderClassName \<and>
             onclick decoy = Some (CallOnClickPassword r d) \<and>
             onfocus decoy = Some (CallOnFocusPassword r d) \<and>
             parentNode decoy = Some p \<and>
             inputs v1 = insert_after r d (inputs v) \<and>
             (\<exists>pre post. inputs v = pre @ r # post \<and> inputs v1 = pre @ r # d # post))"
    unfolding Let_def pw dc ins
    using assms(5) marked insert_after_next [OF assms(7), of ?d]
    by (simp add: hide_fields hide_shows decoy_of_shows)
  from whole local password_handlers_keep_values [of r' d' u] show ?thesis by blast
qed

lemma login_page_inputs: "inputs login_page = [0, 1]"
  by (simp add: login_page_def)

lemma login_page_elems:
  "elems login_page =
     [input_element ''text'' ''user'' ''big'' ''Your name'',
      input_element ''password'' ''pw'' [] ''Password'']"
  by (simp add: login_page_def)

lemma gathered_page_inputs: "inputs gathered_page = [0, 1]"
  using gather_frame [of "[0, 1]" login_page]
  by (simp add: gathered_page_def getElementsWithPlaceholders_def login_page_def upd_elem_def
      input_element_def)

theorem password_value_untouched_witness:
  "el_value (elems (world_of (placeholderPolyfill login_page)) ! 1) = [] \<and>
   el_value (elems (world_of (polyfillPassword 1 gathered_page)) ! 1) = [] \<and>
   el_type (elems (world_of (polyfillPassword 1 gathered_page)) ! 2) = ''text'' \<and>
   el_value (elems (world_of (polyfillPassword 1 gathered_page)) ! 2) = ''Password'' \<and>
   inputs (world_of (polyfillPassword 1 gathered_page)) = [0, 1, 2]"
proof -
  have a: "\<forall>i\<in>set (inputs login_page). i < length (elems login_page)"
    by (simp add: login_page_inputs login_page_elems)
  have b: "1 < length (elems login_page)" and c: "el_type (elems login_page ! 1) = ''password''"
    by (simp_all add: login_page_elems input_element_def)
  have d: "1 < length (elems gathered_page)"
    and e: "el_type (elems gathered_page ! 1) = ''password''"
    and f: "parentNode (elems gathered_page ! 1) = Some 0"
    by (simp_all add: gathered_page_elems input_element_def)
  have g: "el_value (elems login_page ! 1) = []" "el_value (elems gathered_page ! 1) = []"
    "placeholder (elems gathered_page ! 1) = ''Password''" "length (elems gathered_page) = 2"
    by (simp_all add: login_page_elems gathered_page_elems input_element_def)
  have h: "1 \<in> set (inputs gathered_page)"
    by (simp add: gathered_page_inputs)
  from password_value_untouched [OF a b c d e f h, of 1 2 gathered_page] g show ?thesis
    unfolding Let_def by (simp add: gathered_page_inputs)
qed

section \<open>Submission\<close>

subsection \<open>Running the registered functions\<close>

lemma run_callback_frame:
  "forms (run_callback c w) = forms w \<and> inputs (run_callback c w) = inputs w \<and>
   length (elems (run_callback c w)) = length (elems w) \<and>
   trace (run_callback c w) = trace w @ calls [c]"
  by (cases c) (simp_all add: run_callback_def upd_elem_def log_event_def)

lemma run_callback_nth:
  "r < length (elems w) \<Longrightarrow> elems (run_callback c w) ! r = touch r c (elems w ! r)"
  by (cases c) (simp_all add: run_callback_def upd_elem_def log_event_def touch_def nth_list_update)

lemma calls_append: "calls (cs @ ds) = calls cs @ calls ds"
  by (induction cs rule: calls.induct) simp_all

lemma submitted_append: "submitted (xs @ ys) = submitted xs @ submitted ys"
  by (induction xs rule: submitted.induct) simp_all

lemma submitted_calls: "submitted (calls cs) = []"
  by (induction cs rule: calls.induct) simp_all

lemma run_all_frame:
  "forms (run_all cs w) = forms w \<and> inputs (run_all cs w) = inputs w \<and>
   length (elems (run_all cs w)) = length (elems w) \<and>
   trace (run_all cs w) = trace w @ calls cs"
proof (induction cs arbitrary: w)
  case Nil
  then show ?case by (simp add: run_all_def)
next
  case (Cons c cs)
  have "run_all (c # cs) w = run_all cs (run_callback c w)" by (simp add: run_all_def)
  moreover have "calls (c # cs) = calls [c] @ calls cs"
    using calls_append [of "[c]" cs] by simp
  ultimately show ?case
    using Cons.IH [of "run_callback c w"] run_callback_frame [of c w] by simp
qed

lemma run_all_nth:
  "r < length (elems w) \<Longrightarrow>
   elems (run_all cs w) ! r = foldl (\<lambda>e c. touch r c e) (elems w ! r) cs"
proof (induction cs arbitrary: w)
  case Nil
  then show ?case by (simp add: run_all_def)
next
  case (Cons c cs)
  have step: "run_all (c # cs) w = run_all cs (run_callback c w)" by (simp add: run_all_def)
  from Cons.prems have "r < length (elems (run_callback c w))"
    by (simp add: run_callback_frame)
  from Cons.IH [OF this] Cons.prems show ?case
    by (simp add: step run_callback_nth)
qed

lemma value_update_exists: "\<exists>x. e = e\<lparr>el_value := x\<rparr>"
  by (rule exI [of _ "el_value e"]) simp

lemma touch_cases:
  "touch r c e = e \<or> touch r c e = e\<lparr>el_value := []\<rparr> \<or>
   touch r c e = e\<lparr>el_value := placeholder e\<rparr>"
  by (cases c) (simp_all add: touch_def beforeOnSubmit_def afterOnSubmit_def)

lemma touch_shape: "\<exists>x. touch r c e = e\<lparr>el_value := x\<rparr>"
  using touch_cases [of r c e] value_update_exists [of e] by metis

lemma touch_all_shape: "\<exists>x. foldl (\<lambda>e c. touch r c e) e cs = e\<lparr>el_value := x\<rparr>"
proof (induction cs arbitrary: e)
  case Nil
  show ?case using value_update_exists [of e] by simp
next
  case (Cons c cs)
  obtain y where y: "touch r c e = e\<lparr>el_value := y\<rparr>" using touch_shape by blast
  from Cons.IH [of "e\<lparr>el_value := y\<rparr>"] obtain x where
    "foldl (\<lambda>e c. touch r c e) (e\<lparr>el_value := y\<rparr>) cs = e\<lparr>el_value := y, el_value := x\<rparr>"
    by blast
  with y have "foldl (\<lambda>e c. touch r c e) e (c # cs) = e\<lparr>el_value := x\<rparr>" by simp
  then show ?case by (rule exI)
qed

lemma hasClass_value: "hasClass (e\<lparr>el_value := x\<rparr>) cn = hasClass e cn"
  by (simp add: hasClass_def)

lemma before_all_empties:
  assumes "hasClass e placeholderClassName" and "CallAfterOnSubmit r \<notin> set cs"
    and "CallBeforeOnSubmit r \<in> set cs"
  shows "foldl (\<lambda>e c. touch r c e) e cs = e\<lparr>el_value := []\<rparr>"
proof -
  have "hasClass e placeholderClassName \<Longrightarrow> CallAfterOnSubmit r \<notin> set cs \<Longrightarrow>
        foldl (\<lambda>e c. touch r c e) e cs =
          (if CallBeforeOnSubmit r \<in> set cs then e\<lparr>el_value := []\<rparr> else e)" for e
  proof (induction cs arbitrary: e)
    case Nil
    then show ?case by simp
  next
    case (Cons c cs)
    show ?case
    proof (cases "c = CallBeforeOnSubmit r")
      case True
      with Cons.prems have t: "touch r c e = e\<lparr>el_value := []\<rparr>"
        by (simp add: touch_def beforeOnSubmit_def)
      from Cons.prems have "hasClass (e\<lparr>el_value := []\<rparr>) placeholderClassName"
        by (simp add: hasClass_value)
      from Cons.IH [OF this] Cons.prems(2) True t show ?thesis by simp
    next
      case False
      with Cons.prems(2) have t: "touch r c e = e"
        by (cases c) (auto simp: touch_def)
      from Cons.IH [OF Cons.prems(1)] Cons.prems(2) False t show ?thesis by simp
    qed
  qed
  with assms show ?thesis by simp
qed

lemma after_all_restores:
  assumes "hasClass e placeholderClassName" and "CallBeforeOnSubmit r \<notin> set cs"
    and "CallAfterOnSubmit r \<in> set cs"
  shows "foldl (\<lambda>e c. touch r c e) e cs = e\<lparr>el_value := placeholder e\<rparr>"
proof -
  have "hasClass e placeholderClassName \<Longrightarrow> CallBeforeOnSubmit r \<notin> set cs \<Longrightarrow>
        foldl (\<lambda>e c. touch r c e) e cs =
          (if CallAfterOnSubmit r \<in> set cs then e\<lparr>el_value := placeholder e\<rparr> else e)" for e
  proof (induction cs arbitrary: e)
    case Nil
    then show ?case by simp
  next
    case (Cons c cs)
    show ?case
    proof (cases "c = CallAfterOnSubmit r")
      case True
      with Cons.prems have t: "touch r c e = e\<lparr>el_value := placeholder e\<rparr>"
        by (simp add: touch_def afterOnSubmit_def)
      from Cons.prems have "hasClass (e\<lparr>el_value := placeholder e\<rparr>) placeholderClassName"
        by (simp add: hasClass_value)
      from Cons.IH [OF this] Cons.prems(2) True t show ?thesis by simp
    next
      case False
      with Cons.prems(2) have t: "touch r c e = e"
        by (cases c) (auto simp: touch_def)
      from Cons.IH [OF Cons.prems(1)] Cons.prems(2) False t show ?thesis by simp
    qed
  qed
  with assms show ?thesis by simp
qed


lemma submit_frame:
  "forms (submit form w) = forms w \<and> elems (submit form w) = elems w \<and>
   inputs (submit form w) = inputs w \<and>
   trace (submit form w) = trace w @ [Submit form (form_data form w)]"
  by (simp add: submit_def log_event_def)

lemma onsubmit_wrapper_sequence:
  assumes "beforeOnSubmitProp (forms w ! form) = Some b"
    and "afterOnSubmitProp (forms w ! form) = Some a"
  shows "onsubmit_wrapper form w =
           Returned False (run_all (registered a) (submit form (run_all (registered b) w)))"
  using assms
  by (simp add: onsubmit_wrapper_def Let_def call_fn_registered submit_frame run_all_frame)

lemma onsubmit_wrapper_events:
  assumes "beforeOnSubmitProp (forms w ! form) = Some b"
  shows "submitted (new_events w (world_of (onsubmit_wrapper form w))) =
           form_data form (run_all (registered b) w)"
proof -
  let ?w1 = "run_all (registered b) w"
  have t1: "trace (submit form ?w1) =
              trace w @ calls (registered b) @ [Submit form (form_data form ?w1)]"
    by (simp add: submit_frame run_all_frame)
  show ?thesis
  proof (cases "afterOnSubmitProp (forms w ! form)")
    case None
    with assms have "world_of (onsubmit_wrapper form w) = submit form ?w1"
      by (simp add: onsubmit_wrapper_def Let_def call_fn_registered submit_frame run_all_frame)
    with t1 show ?thesis
      by (simp add: new_events_def submitted_append submitted_calls)
  next
    case (Some a)
    from onsubmit_wrapper_sequence [OF assms Some]
    have "trace (world_of (onsubmit_wrapper form w)) =
            trace w @ calls (registered b) @ [Submit form (form_data form ?w1)] @
            calls (registered a)"
      by (simp add: run_all_frame t1)
    then show ?thesis
      by (simp add: new_events_def submitted_append submitted_calls)
  qed
qed

subsection \<open>The wired login page\<close>

lemma gather_login_page:
  "getElementsWithPlaceholders login_page = ([0, 1], gathered_page)"
proof -
  have "fst (getElementsWithPlaceholders login_page) = [0, 1]"
    by (simp add: getElementsWithPlaceholders_def login_page_def upd_elem_def input_element_def)
  then show ?thesis by (simp add: gathered_page_def prod_eq_iff)
qed

lemma gathered_page_eval:
  "gathered_page = login_page\<lparr>elems :=
     [(input_element ''text'' ''user'' ''big'' ''Your name'')\<lparr>placeholder := ''Your name''\<rparr>,
      (input_element ''password'' ''pw'' [] ''Password'')\<lparr>placeholder := ''Password''\<rparr>]\<rparr>"
  by (simp add: gathered_page_def getElementsWithPlaceholders_def login_page_def upd_elem_def
      input_element_def)

lemma wire_user_field:
  "polyfill 0 gathered_page =
     Returned ()
       (login_page\<lparr>elems := [user_field,
           (input_element ''password'' ''pw'' [] ''Password'')\<lparr>placeholder := ''Password''\<rparr>],
         forms := [wired_form], trace := [ConsoleLog (warning login_form)]\<rparr>)"
  by (simp add: gathered_page_eval login_page_def login_form_def wiring_eval class_eval
      user_field_def wired_form_def warning_def extraInfo_def)

lemma wire_password_field:
  "polyfillPassword (Suc 0)
       (login_page\<lparr>elems := [user_field,
           (input_element ''password'' ''pw'' [] ''Password'')\<lparr>placeholder := ''Password''\<rparr>],
         forms := [wired_form], trace := [ConsoleLog (warning login_form)]\<rparr>) =
     Returned ()
       (login_page\<lparr>elems := [user_field, password_field, password_decoy],
         forms := [wired_form], inputs := [0, 1, 2],
         trace := [ConsoleLog (warning login_form)]\<rparr>)"
proof -
  let ?w = "login_page\<lparr>elems := [user_field,
           (input_element ''password'' ''pw'' [] ''Password'')\<lparr>placeholder := ''Password''\<rparr>],
         forms := [wired_form], trace := [ConsoleLog (warning login_form)]\<rparr>"
  have a: "Suc 0 < length (elems ?w)" by simp
  have b: "el_type (elems ?w ! Suc 0) = ''password''" by (simp add: input_element_def)
  have c: "parentNode (elems ?w ! Suc 0) = Some 0" by (simp add: input_element_def)
  have h: "hide (Suc 0) (Suc (Suc 0)) ((input_element ''password'' ''pw'' [] ''Password'')\<lparr>placeholder := ''Password''\<rparr>) = password_field"
    by (simp add: hide_def password_field_def class_eval)
  have d: "(decoy_of False (Suc 0) (Suc (Suc 0)) ((input_element ''password'' ''pw'' [] ''Password'')\<lparr>placeholder := ''Password''\<rparr>))
             \<lparr>parentNode := Some 0, el_form := Some 0\<rparr> = password_decoy"
    by (simp add: decoy_of_def password_decoy_def activatePlaceholder_def
        disableTextSelection_def placeholderClassName_def class_eval)
  have e: "classListSupported ?w = False" "inputs ?w = [0, 1]"
    "el_form ((input_element ''password'' ''pw'' [] ''Password'')\<lparr>placeholder := ''Password''\<rparr>) = Some 0"
    by (simp_all add: login_page_def input_element_def)
  show ?thesis
    unfolding polyfillPassword_result [OF a b c]
    by (simp add: h d e)
qed

lemma wired_page_eval:
  "wired_page =
     login_page\<lparr>elems := [user_field, password_field, password_decoy],
         forms := [wired_form], inputs := [0, 1, 2],
         trace := [ConsoleLog (warning login_form)]\<rparr>"
proof -
  have "el_type (elems gathered_page ! 0) \<noteq> ''password''"
    by (simp add: gathered_page_eval input_element_def)
  moreover have "el_type ((input_element ''password'' ''pw'' [] ''Password'')\<lparr>placeholder := ''Password''\<rparr>) = ''password''"
    by (simp add: input_element_def)
  moreover have "\<not> placeholderIsSupported login_page"
    by (simp add: placeholderIsSupported_def login_page_def)
  ultimately show ?thesis
    by (simp add: wired_page_def placeholderPolyfill_def gather_login_page wire_user_field
        wire_password_field)
qed

lemmas wired_eval = wired_page_eval login_page_def user_field_def password_field_def
  password_decoy_def wired_form_def

subsection \<open>What \<open>polyfill\<close> registers\<close>

lemma forms_upd_elem: "forms (upd_elem r g w) = forms w"
  by (simp add: upd_elem_def)

lemma polyfill_registers:
  assumes "r < length (elems w)" and "el_form (elems w ! r) = Some f" and "f < length (forms w)"
  shows "\<exists>w'. polyfill r w = Returned () w' \<and>
           registered_opt (beforeOnSubmitProp (forms w' ! f)) =
             registered_opt (beforeOnSubmitProp (forms w ! f)) @ [CallBeforeOnSubmit r] \<and>
           registered_opt (afterOnSubmitProp (forms w' ! f)) =
             registered_opt (afterOnSubmitProp (forms w ! f)) @ [CallAfterOnSubmit r] \<and>
           onSubmitIsSet (forms w' ! f)"
proof -
  let ?w2 = "upd_elem r (\<lambda>e. e\<lparr>onclick := Some CallOnClick, onfocus := Some CallOnFocus,
                                  onblur := Some CallOnBlur\<rparr>) (upd_elem r activatePlaceholder w)"
  let ?w3 = "addBeforeOnSubmit f (CallBeforeOnSubmit r) ?w2"
  let ?w4 = "addAfterOnSubmit f (CallAfterOnSubmit r) ?w3"
  have fo: "el_form (elems ?w2 ! r) = Some f"
    using assms(1,2) by (simp add: elems_upd_elem activatePlaceholder_fields)
  have forms2: "forms ?w2 = forms w" by (simp add: forms_upd_elem)
  have ret: "polyfill r w = Returned () (setCustomBeforeAndAfterOnSubmitEvents f ?w4)"
    using fo by (simp add: polyfill_def Let_def)
  have len3: "f < length (forms ?w3)" using assms(3) by (simp add: length_forms_addBefore forms2)
  have b3: "registered_opt (beforeOnSubmitProp (forms ?w3 ! f)) =
      registered_opt (beforeOnSubmitProp (forms w ! f)) @ [CallBeforeOnSubmit r]"
    using assms(3) addBeforeOnSubmit_registered [of f ?w2 "CallBeforeOnSubmit r"]
    by (simp add: forms2)
  have a3: "afterOnSubmitProp (forms ?w3 ! f) = afterOnSubmitProp (forms w ! f)"
    using assms(3) by (simp add: addBeforeOnSubmit_def upd_form_nth forms2)
  have b4: "beforeOnSubmitProp (forms ?w4 ! f) = beforeOnSubmitProp (forms ?w3 ! f)"
    using len3 by (simp add: addAfterOnSubmit_def upd_form_nth)
  have a4: "registered_opt (afterOnSubmitProp (forms ?w4 ! f)) =
      registered_opt (afterOnSubmitProp (forms w ! f)) @ [CallAfterOnSubmit r]"
    using addAfterOnSubmit_registered [OF len3, of "CallAfterOnSubmit r"] a3 by simp
  have len4: "f < length (forms ?w4)" using len3 by (simp add: length_forms_addAfter)
  have "beforeOnSubmitProp (forms ?w3 ! f) \<noteq> None"
    using assms(3) by (simp add: addBeforeOnSubmit_def upd_form_nth forms2)
  moreover have "afterOnSubmitProp (forms ?w4 ! f) \<noteq> None"
    using len3 by (simp add: addAfterOnSubmit_def upd_form_nth)
  ultimately have some: "beforeOnSubmitProp (forms ?w4 ! f) \<noteq> None"
      "afterOnSubmitProp (forms ?w4 ! f) \<noteq> None"
    using b4 by simp_all
  let ?w5 = "setCustomBeforeAndAfterOnSubmitEvents f ?w4"
  have "beforeOnSubmitProp (forms ?w5 ! f) = beforeOnSubmitProp (forms ?w4 ! f) \<and>
        afterOnSubmitProp (forms ?w5 ! f) = afterOnSubmitProp (forms ?w4 ! f) \<and>
        onSubmitIsSet (forms ?w5 ! f)"
  proof (cases "onSubmitIsSet (forms ?w4 ! f)")
    case True
    then have "?w5 = ?w4" by (simp add: setCustomBeforeAndAfterOnSubmitEvents_def)
    with True show ?thesis by simp
  next
    case False
    from setCustom_installs [OF len4 False some] show ?thesis by simp
  qed
  with ret b3 a4 b4 show ?thesis by simp
qed

subsection \<open>The claims about submission\<close>

text \<open>
  Claim C1. Let the element \<open>r\<close> carry the marker class when the wrapper of its form runs, let
  its function \<open>function(){beforeOnSubmit(element)}\<close> be registered in \<open>form.beforeOnSubmit\<close>
  (\<open>polyfill\<close> appends it there, and nothing else, \<open>polyfill_registers\<close>) and let its
  after-submit function not be registered there. Then the value of \<open>r\<close> is empty when
  \<open>form.submit()\<close> runs: the wrapper submits the form data once, they hold \<open>r\<close> (a named
  control of the form) with the empty value, and no other value for \<open>r\<close>.
\<close>

theorem placeholder_not_submitted:
  assumes "beforeOnSubmitProp (forms w ! form) = Some b"
    and "r < length (elems w)"
    and "hasClass (elems w ! r) placeholderClassName"
    and "CallBeforeOnSubmit r \<in> set (registered b)"
    and "CallAfterOnSubmit r \<notin> set (registered b)"
    and "r \<in> set (inputs w)"
    and "el_form (elems w ! r) = Some form"
    and "el_name (elems w ! r) \<noteq> []"
  shows "(let w' = world_of (onsubmit_wrapper form w)
          in el_value (elems (call_fn b w) ! r) = [] \<and>
             submitted (new_events w w') = form_data form (call_fn b w) \<and>
             (r, []) \<in> set (submitted (new_events w w')) \<and>
             (\<forall>v. (r, v) \<in> set (submitted (new_events w w')) \<longrightarrow> v = []))"
proof -
  let ?w1 = "run_all (registered b) w"
  have e1: "elems ?w1 ! r = (elems w ! r)\<lparr>el_value := []\<rparr>"
    using assms(2-5) by (simp add: run_all_nth before_all_empties)
  have data: "submitted (new_events w (world_of (onsubmit_wrapper form w))) = form_data form ?w1"
    using assms(1) by (rule onsubmit_wrapper_events)
  have inp: "inputs ?w1 = inputs w" by (simp add: run_all_frame)
  have "(r, []) \<in> set (form_data form ?w1)"
    using assms(6-8) e1 by (auto simp: form_data_def inp image_iff)
  moreover have "v = []" if "(r, v) \<in> set (form_data form ?w1)" for v
    using that e1 by (auto simp: form_data_def)
  ultimately show ?thesis
    using e1 data by (simp add: Let_def call_fn_registered)
qed

theorem placeholder_not_submitted_witness:
  "el_value (elems wired_page ! 0) = ''Your name'' \<and>
   hasClass (elems wired_page ! 0) placeholderClassName \<and>
   submitted (new_events wired_page (world_of (onsubmit_wrapper 0 wired_page))) =
     [(0, []), (1, [])]"
proof -
  have a: "beforeOnSubmitProp (forms wired_page ! 0) = Some (Composed None (CallBeforeOnSubmit 0))"
    and b: "0 < length (elems wired_page)"
    and d: "CallBeforeOnSubmit 0 \<in> set (registered (Composed None (CallBeforeOnSubmit 0)))"
    and e: "CallAfterOnSubmit 0 \<notin> set (registered (Composed None (CallBeforeOnSubmit 0)))"
    and f: "0 \<in> set (inputs wired_page)"
    and g: "el_form (elems wired_page ! 0) = Some 0"
    and h: "el_name (elems wired_page ! 0) \<noteq> []"
    and v: "el_value (elems wired_page ! 0) = ''Your name''"
    by (simp_all add: wired_eval)
  have c: "hasClass (elems wired_page ! 0) placeholderClassName"
    by (simp add: wired_eval placeholderClassName_def class_eval)
  have data: "form_data 0 (call_fn (Composed None (CallBeforeOnSubmit 0)) wired_page) =
      [(0, []), (1, [])]"
    by (simp add: wired_eval form_data_def run_callback_def upd_elem_def beforeOnSubmit_def
        placeholderClassName_def class_eval)
  from placeholder_not_submitted [OF a b c d e f g h] v c data show ?thesis
    by (simp add: Let_def)
qed

text \<open>
  What the wrapper does in general: it runs the functions registered in
  \<open>form.beforeOnSubmit\<close>, then \<open>form.submit()\<close>, then the functions registered in
  \<open>form.afterOnSubmit\<close>, and returns false. An element \<open>r\<close> that carries the marker class and
  whose after-submit function is registered there (and its before-submit function is not)
  ends with its value set to its placeholder text and with nothing else changed.
\<close>

lemma onsubmit_wrapper_restores:
  assumes "beforeOnSubmitProp (forms w ! form) = Some b"
    and "afterOnSubmitProp (forms w ! form) = Some a"
    and "r < length (elems w)"
    and "hasClass (elems w ! r) placeholderClassName"
    and "CallAfterOnSubmit r \<in> set (registered a)"
    and "CallBeforeOnSubmit r \<notin> set (registered a)"
  shows "(let w' = world_of (onsubmit_wrapper form w)
          in onsubmit_wrapper form w =
               Returned False (run_all (registered a) (submit form (run_all (registered b) w))) \<and>
             trace w' = trace w @ calls (registered b) @
               [Submit form (form_data form (run_all (registered b) w))] @ calls (registered a) \<and>
             elems w' ! r = (elems w ! r)\<lparr>el_value := placeholder (elems w ! r)\<rparr> \<and>
             (el_value (elems w ! r) = placeholder (elems w ! r) \<longrightarrow>
                elems w' ! r = elems w ! r))"
proof -
  let ?w1 = "submit form (run_all (registered b) w)"
  note seq = onsubmit_wrapper_sequence [OF assms(1,2)]
  have tr: "trace (run_all (registered a) ?w1) = trace w @ calls (registered b) @
               [Submit form (form_data form (run_all (registered b) w))] @ calls (registered a)"
    by (simp add: run_all_frame submit_frame)
  obtain x where x: "elems ?w1 ! r = (elems w ! r)\<lparr>el_value := x\<rparr>"
    using touch_all_shape [of r "elems w ! r" "registered b"] assms(3)
    by (auto simp: submit_frame run_all_nth)
  have len: "r < length (elems ?w1)"
    using assms(3) by (simp add: submit_frame run_all_frame)
  have marked: "hasClass (elems ?w1 ! r) placeholderClassName"
    using assms(4) by (simp add: x hasClass_value)
  have "elems (run_all (registered a) ?w1) ! r =
          foldl (\<lambda>e c. touch r c e) (elems ?w1 ! r) (registered a)"
    using len by (rule run_all_nth)
  also have "\<dots> = (elems ?w1 ! r)\<lparr>el_value := placeholder (elems ?w1 ! r)\<rparr>"
    using marked assms(6,5) by (rule after_all_restores)
  also have "\<dots> = (elems w ! r)\<lparr>el_value := placeholder (elems w ! r)\<rparr>"
    by (simp add: x)
  finally have el: "elems (run_all (registered a) ?w1) ! r =
      (elems w ! r)\<lparr>el_value := placeholder (elems w ! r)\<rparr>" .
  have same: "(elems w ! r)\<lparr>el_value := placeholder (elems w ! r)\<rparr> = elems w ! r"
    if "el_value (elems w ! r) = placeholder (elems w ! r)"
    using that by (metis element.surjective element.update_convs(3))
  from seq tr el same show ?thesis by (simp add: Let_def)
qed

lemma onsubmit_wrapper_restores_login:
  "el_value (elems wired_page ! 0) = placeholder (elems wired_page ! 0) \<and>
   elems (world_of (onsubmit_wrapper 0 wired_page)) ! 0 = elems wired_page ! 0 \<and>
   onsubmit_wrapper 0 wired_page =
     Returned False (wired_page\<lparr>trace := trace wired_page @ [Submit 0 [(0, []), (1, [])]]\<rparr>)"
proof -
  have a: "beforeOnSubmitProp (forms wired_page ! 0) = Some (Composed None (CallBeforeOnSubmit 0))"
    and a': "afterOnSubmitProp (forms wired_page ! 0) = Some (Composed None (CallAfterOnSubmit 0))"
    and b: "0 < length (elems wired_page)"
    and d: "CallAfterOnSubmit 0 \<in> set (registered (Composed None (CallAfterOnSubmit 0)))"
    and e: "CallBeforeOnSubmit 0 \<notin> set (registered (Composed None (CallAfterOnSubmit 0)))"
    and v: "el_value (elems wired_page ! 0) = placeholder (elems wired_page ! 0)"
    by (simp_all add: wired_eval)
  have c: "hasClass (elems wired_page ! 0) placeholderClassName"
    by (simp add: wired_eval placeholderClassName_def class_eval)
  have run: "run_all (registered (Composed None (CallAfterOnSubmit 0)))
          (submit 0 (run_all (registered (Composed None (CallBeforeOnSubmit 0))) wired_page)) =
        wired_page\<lparr>trace := trace wired_page @ [Submit 0 [(0, []), (1, [])]]\<rparr>"
    by (simp add: wired_eval run_all_def submit_def log_event_def form_data_def run_callback_def
        upd_elem_def beforeOnSubmit_def afterOnSubmit_def placeholderClassName_def class_eval)
  from onsubmit_wrapper_restores [OF a a' b c d e] v run show ?thesis
    by (simp add: Let_def)
qed

section \<open>Where the placeholder appears\<close>

text \<open>Every element that \<open>getElementsWithPlaceholders\<close> returns has its placeholder text.\<close>

lemma gather_keeps_placeholder:
  "r < length (elems w) \<Longrightarrow> placeholder (elems w ! r) \<noteq> [] \<Longrightarrow>
   placeholder (elems (snd (getElementsWithPlaceholders_loop rs w)) ! r) \<noteq> []"
proof (induction rs arbitrary: w)
  case Nil
  then show ?case by simp
next
  case (Cons i rs)
  let ?w1 = "upd_elem i (\<lambda>e. e\<lparr>placeholder :=
                       (if placeholder e \<noteq> [] then placeholder e
                        else (case placeholderAttr e of None \<Rightarrow> [] | Some a \<Rightarrow> a))\<rparr>) w"
  have len: "r < length (elems ?w1)" using Cons.prems(1) by (simp add: elems_upd_elem)
  have "placeholder (elems ?w1 ! r) \<noteq> []"
    using Cons.prems by (cases "i = r") (simp_all add: elems_upd_elem)
  with len have "placeholder (elems (snd (getElementsWithPlaceholders_loop rs ?w1)) ! r) \<noteq> []"
    by (rule Cons.IH)
  moreover have "placeholder (elems (snd (getElementsWithPlaceholders_loop rs w)) ! r) \<noteq> []"
    using Cons.prems by (rule Cons.IH)
  ultimately show ?case by (simp add: Let_def case_prod_unfold)
qed

lemma gather_found_placeholder:
  "\<forall>i\<in>set rs. i < length (elems w) \<Longrightarrow>
   r \<in> set (fst (getElementsWithPlaceholders_loop rs w)) \<Longrightarrow>
   placeholder (elems (snd (getElementsWithPlaceholders_loop rs w)) ! r) \<noteq> []"
proof (induction rs arbitrary: w)
  case Nil
  then show ?case by simp
next
  case (Cons i rs)
  let ?e = "elems w ! i"
  let ?w1 = "upd_elem i (\<lambda>e. e\<lparr>placeholder :=
                       (if placeholder e \<noteq> [] then placeholder e
                        else (case placeholderAttr e of None \<Rightarrow> [] | Some a \<Rightarrow> a))\<rparr>) w"
  from Cons.prems(1) have i: "i < length (elems w)" by simp
  show ?case
  proof (cases "placeholder ?e \<noteq> [] \<or> (case placeholderAttr ?e of None \<Rightarrow> False | Some a \<Rightarrow> a \<noteq> [])")
    case True
    have rest: "\<forall>j\<in>set rs. j < length (elems ?w1)"
      using Cons.prems(1) by (simp add: elems_upd_elem)
    from True Cons.prems(2)
    have "r = i \<or> r \<in> set (fst (getElementsWithPlaceholders_loop rs ?w1))"
      by (auto simp: Let_def case_prod_unfold)
    then have "placeholder (elems (snd (getElementsWithPlaceholders_loop rs ?w1)) ! r) \<noteq> []"
    proof
      assume r: "r = i"
      have "placeholder (elems ?w1 ! i) \<noteq> []"
        using True i by (auto simp: elems_upd_elem split: option.splits)
      moreover have "i < length (elems ?w1)" using i by (simp add: elems_upd_elem)
      ultimately show ?thesis unfolding r by (intro gather_keeps_placeholder)
    next
      assume "r \<in> set (fst (getElementsWithPlaceholders_loop rs ?w1))"
      with rest show ?thesis by (rule Cons.IH)
    qed
    with True show ?thesis by (simp add: Let_def case_prod_unfold)
  next
    case False
    from Cons.prems(1) have rest: "\<forall>j\<in>set rs. j < length (elems w)" by simp
    from False Cons.prems(2) have "r \<in> set (fst (getElementsWithPlaceholders_loop rs w))"
      by (simp add: Let_def)
    with rest have "placeholder (elems (snd (getElementsWithPlaceholders_loop rs w)) ! r) \<noteq> []"
      by (rule Cons.IH)
    with False show ?thesis by (simp add: Let_def)
  qed
qed






section \<open>Submission after typed text\<close>

lemma typed_page_eval:
  "typed_page =
     search_page\<lparr>elems :=
        [(input_element ''text'' ''q'' ''placeholder'' ''Search'')
           \<lparr>el_value := ''cats'', placeholder := ''Search'',
            onclick := Some CallOnClick, onfocus := Some CallOnFocus,
            onblur := Some CallOnBlur\<rparr>],
      forms :=
        [\<lparr>form_id = ''search'', form_name = [], onsubmit = Some (CustomOnsubmit 0),
          beforeOnSubmitProp = Some (Composed None (CallBeforeOnSubmit 0)),
          afterOnSubmitProp = Some (Composed None (CallAfterOnSubmit 0)),
          onSubmitIsSet = True\<rparr>]\<rparr>"
proof -
  let ?e1 = "(input_element ''text'' ''q'' ''placeholder placeholder placeholder'' ''Search'')
             \<lparr>el_value := ''Search'', placeholder := ''Search'',
              onclick := Some CallOnClick, onfocus := Some CallOnFocus,
              onblur := Some CallOnBlur, onselectstart := Some ReturnFalse,
              onmousedown := Some ReturnFalse\<rparr>"
  have focused: "onFocus ?e1 =
      (input_element ''text'' ''q'' ''placeholder'' ''Search'')
           \<lparr>el_value := [], placeholder := ''Search'',
            onclick := Some CallOnClick, onfocus := Some CallOnFocus,
            onblur := Some CallOnBlur\<rparr>"
    by (simp add: onFocus_def deactivatePlaceholder_def enableTextSelection_def
        placeholderClassName_def class_eval)
  show ?thesis
    unfolding typed_page_def search_page_wired
    by (simp add: run_handler_def user_types_def upd_elem_def focused onBlur_def)
qed

text \<open>
  Claim C5. The wrapper runs the before-submit functions, \<open>form.submit()\<close> and the
  after-submit functions and returns false, and an element that carries the marker class
  gets its placeholder text as value afterwards (\<open>onsubmit_wrapper_restores\<close>). The
  element should then be the same after the submission as before. On the search page the
  field still carries the marker class after the user has focused it, typed \<open>cats\<close> and
  left it, because \<open>removeClass\<close> did not remove the marker on focus. Submitting sends the
  empty value for the field and leaves \<open>Search\<close> in it: the typed text is gone and the
  element is not the same as before.
\<close>

theorem submission_replaces_typed_text:
  "hasClass (elems typed_page ! 0) placeholderClassName \<and>
   el_value (elems typed_page ! 0) = ''cats'' \<and>
   submitted (new_events typed_page (world_of (onsubmit_wrapper 0 typed_page))) = [(0, [])] \<and>
   el_value (elems (world_of (onsubmit_wrapper 0 typed_page)) ! 0) = ''Search'' \<and>
   elems (world_of (onsubmit_wrapper 0 typed_page)) ! 0 \<noteq> elems typed_page ! 0"
proof -
  have marked: "hasClass (elems typed_page ! 0) placeholderClassName"
    by (simp add: typed_page_eval search_page_def placeholderClassName_def class_eval)
  have typed: "el_value (elems typed_page ! 0) = ''cats''"
    by (simp add: typed_page_eval search_page_def)
  have run: "onsubmit_wrapper 0 typed_page =
      Returned False
        (typed_page\<lparr>elems := [(elems typed_page ! 0)\<lparr>el_value := ''Search''\<rparr>],
           trace := [Submit 0 [(0, [])]]\<rparr>)"
    by (simp add: typed_page_eval search_page_def onsubmit_wrapper_def Let_def submit_def
        log_event_def form_data_def run_callback_def upd_elem_def beforeOnSubmit_def
        afterOnSubmit_def placeholderClassName_def class_eval)
  have before: "trace typed_page = []"
    by (simp add: typed_page_eval search_page_def)
  have "el_value (elems (world_of (onsubmit_wrapper 0 typed_page)) ! 0) = ''Search''"
    by (simp add: run)
  with typed have "elems (world_of (onsubmit_wrapper 0 typed_page)) ! 0 \<noteq> elems typed_page ! 0"
    by auto
  with marked typed run before show ?thesis
    by (simp add: new_events_def)
qed

end
